theory Spec2Isabelle
  imports Main
begin

section \<open>AgentCoordProtocol: data model\<close>

text \<open>
  Shallow embedding of \<^verbatim>\<open>contracts/AgentCoordProtocol.sol\<close>.  An \<^verbatim>\<open>address\<close> is an opaque
  account identifier with \<open>0\<close> standing for \<^verbatim>\<open>address(0)\<close>.  A \<^verbatim>\<open>uint256\<close> is a natural
  number; Solidity 0.8 arithmetic is checked, so every addition or multiplication of the
  source that can exceed \<open>2 ^ 256 - 1\<close> is a branch that reverts with \<open>Panic\<close>.
\<close>

type_synonym address = nat
type_synonym uint256 = nat

definition MAX_UINT256 :: nat where
  "MAX_UINT256 = 2 ^ 256 - 1"

definition MAX_INT256 :: int where
  "MAX_INT256 = 2 ^ 255 - 1"

definition MIN_INT256 :: int where
  "MIN_INT256 = - (2 ^ 255)"

text \<open>Every \<^verbatim>\<open>require\<close> message of the contract, a failed modifier, a checked-arithmetic
  panic, and a revert bubbling up from a callee.\<close>

datatype error =
    NotOwner                    \<comment> \<open>"Not owner"\<close>
  | ReviewDoesNotExist          \<comment> \<open>"Review does not exist"\<close>
  | AlreadyExecuted             \<comment> \<open>"Already executed"\<close>
  | ReviewWindowClosed          \<comment> \<open>"Review window closed"\<close>
  | InvalidAgent                \<comment> \<open>"Invalid agent"\<close>
  | MaxAmountZero               \<comment> \<open>"maxAmount must be > 0"\<close>
  | NoDelegationFound           \<comment> \<open>"No delegation found"\<close>
  | DelegationExpired           \<comment> \<open>"Delegation expired"\<close>
  | NoHBARSent                  \<comment> \<open>"No HBAR sent"\<close>
  | AlreadyRegistered           \<comment> \<open>"Already registered"\<close>
  | InsufficientSubmissionFee   \<comment> \<open>"Insufficient submission fee"\<close>
  | InvalidTokenAddress         \<comment> \<open>"Invalid token address"\<close>
  | TokenNotFoundOnMemeJob      \<comment> \<open>"Token not found on MemeJob"\<close>
  | ScheduleCallFailed          \<comment> \<open>"scheduleCall failed"\<close>
  | NoValidDelegation           \<comment> \<open>"No valid delegation"\<close>
  | ThesisAlreadySubmitted      \<comment> \<open>"Thesis already submitted"\<close>
  | MustPledgeIfBullish         \<comment> \<open>"Must pledge > 0 if bullish"\<close>
  | ExceedsDelegationLimit      \<comment> \<open>"Exceeds delegation limit"\<close>
  | InsufficientEscrow          \<comment> \<open>"Insufficient escrow"\<close>
  | WindowNotClosedYet          \<comment> \<open>"Window not closed yet"\<close>
  | ReviewNotYetExecuted        \<comment> \<open>"Review not yet executed"\<close>
  | AgentDidNotInvest           \<comment> \<open>"Agent did not invest"\<close>
  | AgentNotRegistered          \<comment> \<open>"Agent not registered (ERC-8004)"\<close>
  | NotYetExecuted              \<comment> \<open>"Not yet executed"\<close>
  | NoTokensToClaim             \<comment> \<open>"No tokens to claim"\<close>
  | AlreadyClaimed              \<comment> \<open>"Already claimed"\<close>
  | TransferFailed              \<comment> \<open>"Transfer failed"\<close>
  | Panic                       \<comment> \<open>checked arithmetic or array index\<close>
  | ExternalRevert              \<comment> \<open>a high-level external call reverted\<close>
  | NonPayable                  \<comment> \<open>value sent to a function that is not payable\<close>
  | OutOfGas                    \<comment> \<open>the frame cannot pay for its next call\<close>

record Delegation =
  delegator :: address
  delegate :: address
  maxAmount :: uint256
  expiry :: uint256
  signature :: "nat list"

record AgentIdentity =
  agentAddress :: address
  metadataURI :: string
  registrationTime :: uint256
  reputationScore :: int
  totalTrades :: uint256
  profitableTrades :: uint256

record AgentThesis =
  agent :: address
  thesisText :: string
  bullish :: bool
  thesisPledged :: uint256
  submittedAt :: uint256

record TokenReview =
  tokenAddress :: address
  creator :: address
  submissionFee :: uint256
  deadline :: uint256
  executed :: bool
  exists :: bool
  totalPledged :: uint256
  totalPurchased :: uint256
  scheduleAddress :: address

record AgentShare =
  pledgedAmount :: uint256
  tokenShare :: uint256
  claimed :: bool

text \<open>A storage slot that was never written (or was deleted) reads as the zero value.\<close>

definition zeroDelegation :: Delegation where
  "zeroDelegation = \<lparr>delegator = 0, delegate = 0, maxAmount = 0, expiry = 0, signature = []\<rparr>"

definition zeroIdentity :: AgentIdentity where
  "zeroIdentity = \<lparr>agentAddress = 0, metadataURI = [], registrationTime = 0,
     reputationScore = 0, totalTrades = 0, profitableTrades = 0\<rparr>"

definition zeroThesis :: AgentThesis where
  "zeroThesis = \<lparr>agent = 0, thesisText = [], bullish = False, thesisPledged = 0, submittedAt = 0\<rparr>"

definition zeroReview :: TokenReview where
  "zeroReview = \<lparr>tokenAddress = 0, creator = 0, submissionFee = 0, deadline = 0,
     executed = False, exists = False, totalPledged = 0, totalPurchased = 0, scheduleAddress = 0\<rparr>"

definition zeroShare :: AgentShare where
  "zeroShare = \<lparr>pledgedAmount = 0, tokenShare = 0, claimed = False\<rparr>"

text \<open>Contract storage, the three immutables, the contract's own address, and (last field)
  the balance table of the external ERC-20 tokens, which the contract reads through
  \<^verbatim>\<open>balanceOf\<close> but never writes.\<close>

record state =
  this :: address
  REVIEW_WINDOW :: uint256
  EXECUTION_GAS_LIMIT :: uint256
  MIN_SUBMISSION_FEE :: uint256
  owner :: address
  memeJobAddress :: address
  nextReviewId :: uint256
  reviews :: "nat \<Rightarrow> TokenReview"
  theses :: "nat \<Rightarrow> address \<Rightarrow> AgentThesis"
  reviewAgents :: "nat \<Rightarrow> address list"
  agentShares :: "nat \<Rightarrow> address \<Rightarrow> AgentShare"
  delegations :: "address \<Rightarrow> address \<Rightarrow> Delegation"
  agentIdentities :: "address \<Rightarrow> AgentIdentity"
  agentEscrow :: "address \<Rightarrow> uint256"
  tokens :: "address \<Rightarrow> address \<Rightarrow> uint256"


section \<open>Observable effects and the external world\<close>

datatype event =
    TokenSubmitted nat address address uint256 uint256
  | ThesisSubmitted nat address bool uint256
  | ReviewExecuted nat uint256 uint256
  | AgentShareUpdated nat address uint256
  | ReputationUpdated address int bool
  | DelegationRegistered address address uint256 uint256
  | AgentRegistered address string
  | FeeDistributed nat address uint256
  | TokensClaimed nat address uint256
  | MemeJobAddressUpdated address

text \<open>The external calls the contract issues: \<^verbatim>\<open>token.balanceOf(account)\<close>,
  \<^verbatim>\<open>IMemeJob(m).buyJob{value: amount}(token, amount, referrer)\<close>,
  \<^verbatim>\<open>payable(agent).call{value: payout}("")\<close> with its \<^verbatim>\<open>sent\<close> flag,
  \<^verbatim>\<open>token.transfer(to, amount)\<close>, the MemeJob registry lookup and the schedule request.\<close>

datatype extcall =
    BalanceOfCall address address
  | BuyJobCall address address uint256 address
  | ValueCall address uint256 bool
  | TransferCall address address uint256
  | TokenMappingCall address address
  | ScheduleCall address uint256 uint256

text \<open>What one call frame of the contract does that an observer sees, in program order.\<close>

datatype effect = Emit event | Ext extcall

text \<open>A call either reverts with an error (no state change at all) or returns the new
  state together with the effects of its own frame.\<close>

type_synonym outcome = "error + state \<times> effect list"

text \<open>
  Gas.  A call that transfers value costs the caller \<open>9000\<close> gas (the Yellow Paper's call-value cost), and a
  call forwards all but one 64th of the gas the caller has left (EIP-150); neither
  \<^verbatim>\<open>buyJob{value: ...}\<close> nor \<^verbatim>\<open>call{value: payout}("")\<close> sets a gas limit.  The callee
  reports how much of the forwarded gas it used, and the caller goes on with the rest.
  What one round of the payment loop spends on the contract's own instructions (storage
  reads, the event, loop control) depends on the compiler and the gas schedule; it is the
  parameter \<open>iterationGas\<close> of the environment, charged at the start of every round.  The
  gas of the instructions outside that loop is not counted.
\<close>

definition G_callvalue :: nat where
  "G_callvalue = 9000"

definition forwarded :: "nat \<Rightarrow> nat" where
  "forwarded avail = avail - avail div 64"

definition gasAfter :: "nat \<Rightarrow> nat \<Rightarrow> nat" where
  "gasAfter avail used = avail - min used (forwarded avail)"

text \<open>
  The callees are untrusted code.  Each is a function of its arguments, the gas forwarded
  to it and the whole state at the moment of the call.  For the high-level calls
  (\<^verbatim>\<open>balanceOf\<close>, \<^verbatim>\<open>buyJob\<close>, \<^verbatim>\<open>transfer\<close>, the registry lookup) \<open>None\<close> is a revert of
  the callee, which Solidity passes on as a revert of the caller.  The low-level
  \<^verbatim>\<open>call{value: payout}("")\<close> returns a flag instead: \<open>(None, used)\<close> is a failed call
  (the callee's changes are rolled back, the gas it used is gone), \<open>(Some s', used)\<close> a
  successful one.  A state a callee leaves behind may differ from the one it was given
  because the callee can call back into the contract.  The two \<^verbatim>\<open>view\<close> functions are
  invoked by \<^verbatim>\<open>STATICCALL\<close> and \<^verbatim>\<open>scheduleCall\<close> addresses a system precompile, so these
  only return values.
\<close>

record env =
  balanceOf :: "address \<Rightarrow> address \<Rightarrow> nat \<Rightarrow> state \<Rightarrow> (uint256 \<times> nat) option"
  buyJob :: "address \<Rightarrow> address \<Rightarrow> uint256 \<Rightarrow> address \<Rightarrow> nat \<Rightarrow> state \<Rightarrow> (state \<times> nat) option"
  callValue :: "address \<Rightarrow> uint256 \<Rightarrow> nat \<Rightarrow> state \<Rightarrow> state option \<times> nat"
  transfer :: "address \<Rightarrow> address \<Rightarrow> uint256 \<Rightarrow> state \<Rightarrow> (bool \<times> state) option"
  addressToMemeTokenMapping :: "address \<Rightarrow> address \<Rightarrow> state \<Rightarrow> address option"
  scheduleCall :: "address \<Rightarrow> uint256 \<Rightarrow> uint256 \<Rightarrow> state \<Rightarrow> int \<times> address"
  iterationGas :: nat

text \<open>\<^verbatim>\<open>HederaResponseCodes.SUCCESS\<close>, the value \<^verbatim>\<open>MockHSSPrecompile.sol\<close> returns as success.\<close>

definition SUCCESS :: int where
  "SUCCESS = 22"

text \<open>Prefix the effects of the statements already executed to the outcome of the rest.\<close>

fun after :: "effect list \<Rightarrow> outcome \<Rightarrow> outcome" where
  "after fx (Inl e) = Inl e"
| "after fx (Inr (s, fx')) = Inr (s, fx @ fx')"

section \<open>Administration, delegation and escrow\<close>

definition constructor :: "address \<Rightarrow> address \<Rightarrow> address \<Rightarrow> uint256 \<Rightarrow> uint256 \<Rightarrow> uint256
    \<Rightarrow> (address \<Rightarrow> address \<Rightarrow> uint256) \<Rightarrow> state" where
  "constructor self sender memeJob minSubmissionFee reviewWindow executionGasLimit ledger =
     \<lparr>this = self, REVIEW_WINDOW = reviewWindow, EXECUTION_GAS_LIMIT = executionGasLimit,
      MIN_SUBMISSION_FEE = minSubmissionFee, owner = sender, memeJobAddress = memeJob,
      nextReviewId = 0, reviews = (\<lambda>_. zeroReview), theses = (\<lambda>_ _. zeroThesis),
      reviewAgents = (\<lambda>_. []), agentShares = (\<lambda>_ _. zeroShare),
      delegations = (\<lambda>_ _. zeroDelegation), agentIdentities = (\<lambda>_. zeroIdentity),
      agentEscrow = (\<lambda>_. 0), tokens = ledger\<rparr>"

definition setMemeJobAddress :: "address \<Rightarrow> address \<Rightarrow> state \<Rightarrow> outcome" where
  "setMemeJobAddress sender newAddress s =
     (if sender \<noteq> owner s then Inl NotOwner
      else Inr (s\<lparr>memeJobAddress := newAddress\<rparr>, [Emit (MemeJobAddressUpdated newAddress)]))"

definition registerDelegation ::
    "address \<Rightarrow> address \<Rightarrow> uint256 \<Rightarrow> uint256 \<Rightarrow> nat list \<Rightarrow> state \<Rightarrow> outcome" where
  "registerDelegation sender agentAddr maxAmt expiryTime sig s =
     (if agentAddr = 0 then Inl InvalidAgent
      else if \<not> maxAmt > 0 then Inl MaxAmountZero
      else Inr (s\<lparr>delegations := (delegations s)(sender := (delegations s sender)(agentAddr :=
                    \<lparr>delegator = sender, delegate = agentAddr, maxAmount = maxAmt,
                     expiry = expiryTime, signature = sig\<rparr>))\<rparr>,
                [Emit (DelegationRegistered sender agentAddr maxAmt expiryTime)]))"

definition depositForAgent :: "nat \<Rightarrow> address \<Rightarrow> uint256 \<Rightarrow> address \<Rightarrow> state \<Rightarrow> outcome" where
  "depositForAgent now sender msgValue agentAddr s =
     (let d = delegations s sender agentAddr in
      if delegate d \<noteq> agentAddr then Inl NoDelegationFound
      else if \<not> (expiry d = 0 \<or> now < expiry d) then Inl DelegationExpired
      else if \<not> msgValue > 0 then Inl NoHBARSent
      else if agentEscrow s agentAddr + msgValue > MAX_UINT256 then Inl Panic
      else Inr (s\<lparr>agentEscrow := (agentEscrow s)(agentAddr := agentEscrow s agentAddr + msgValue)\<rparr>,
                []))"

definition revokeDelegation :: "address \<Rightarrow> address \<Rightarrow> state \<Rightarrow> outcome" where
  "revokeDelegation sender agentAddr s =
     (let d = delegations s sender agentAddr in
      if delegate d \<noteq> agentAddr then Inl NoDelegationFound
      else Inr (s\<lparr>delegations := (delegations s)(sender :=
                    (delegations s sender)(agentAddr := zeroDelegation))\<rparr>, []))"

section \<open>Agent identity and reputation\<close>

definition registerAgent :: "nat \<Rightarrow> address \<Rightarrow> string \<Rightarrow> state \<Rightarrow> outcome" where
  "registerAgent now sender uri s =
     (if agentAddress (agentIdentities s sender) \<noteq> 0 then Inl AlreadyRegistered
      else Inr (s\<lparr>agentIdentities := (agentIdentities s)(sender :=
                    \<lparr>agentAddress = sender, metadataURI = uri, registrationTime = now,
                     reputationScore = 0, totalTrades = 0, profitableTrades = 0\<rparr>)\<rparr>,
                [Emit (AgentRegistered sender uri)]))"

definition updateReputation :: "address \<Rightarrow> nat \<Rightarrow> address \<Rightarrow> bool \<Rightarrow> state \<Rightarrow> outcome" where
  "updateReputation sender reviewId agt profitable s =
     (if sender \<noteq> owner s then Inl NotOwner
      else if \<not> exists (reviews s reviewId) then Inl ReviewDoesNotExist
      else if \<not> executed (reviews s reviewId) then Inl ReviewNotYetExecuted
      else if \<not> pledgedAmount (agentShares s reviewId agt) > 0 then Inl AgentDidNotInvest
      else let identity = agentIdentities s agt in
      if agentAddress identity = 0 then Inl AgentNotRegistered
      else if totalTrades identity + 1 > MAX_UINT256 then Inl Panic
      else let identity1 = identity\<lparr>totalTrades := totalTrades identity + 1\<rparr> in
      if profitable then
        (if reputationScore identity1 + 1 > MAX_INT256 then Inl Panic
         else if profitableTrades identity1 + 1 > MAX_UINT256 then Inl Panic
         else let identity2 = identity1\<lparr>reputationScore := reputationScore identity1 + 1,
                                         profitableTrades := profitableTrades identity1 + 1\<rparr> in
              Inr (s\<lparr>agentIdentities := (agentIdentities s)(agt := identity2)\<rparr>,
                   [Emit (ReputationUpdated agt (reputationScore identity2) profitable)]))
      else
        (if reputationScore identity1 - 1 < MIN_INT256 then Inl Panic
         else let identity2 = identity1\<lparr>reputationScore := reputationScore identity1 - 1\<rparr> in
              Inr (s\<lparr>agentIdentities := (agentIdentities s)(agt := identity2)\<rparr>,
                   [Emit (ReputationUpdated agt (reputationScore identity2) profitable)])))"

section \<open>Token submission and thesis submission\<close>

definition submitToken :: "env \<Rightarrow> nat \<Rightarrow> address \<Rightarrow> uint256 \<Rightarrow> address \<Rightarrow> state \<Rightarrow> outcome" where
  "submitToken ev now sender msgValue tokenAddr s =
     (if \<not> msgValue \<ge> MIN_SUBMISSION_FEE s then Inl InsufficientSubmissionFee
      else if tokenAddr = 0 then Inl InvalidTokenAddress
      else case addressToMemeTokenMapping ev (memeJobAddress s) tokenAddr s of
        None \<Rightarrow> Inl ExternalRevert
      | Some tAddr \<Rightarrow>
      if tAddr = 0 then Inl TokenNotFoundOnMemeJob
      else if nextReviewId s + 1 > MAX_UINT256 then Inl Panic
      else let reviewId = nextReviewId s;
               s1 = s\<lparr>nextReviewId := nextReviewId s + 1\<rparr> in
      if now + REVIEW_WINDOW s1 > MAX_UINT256 then Inl Panic
      else let dl = now + REVIEW_WINDOW s1;
               s2 = s1\<lparr>reviews := (reviews s1)(reviewId :=
                      \<lparr>tokenAddress = tokenAddr, creator = sender, submissionFee = msgValue,
                       deadline = dl, executed = False, exists = True, totalPledged = 0,
                       totalPurchased = 0, scheduleAddress = 0\<rparr>)\<rparr>;
               (rc, schedAddr) = scheduleCall ev (this s2) dl (EXECUTION_GAS_LIMIT s2) s2 in
      if rc \<noteq> SUCCESS then Inl ScheduleCallFailed
      else Inr (s2\<lparr>reviews := (reviews s2)(reviewId :=
                     (reviews s2 reviewId)\<lparr>scheduleAddress := schedAddr\<rparr>)\<rparr>,
                [Ext (TokenMappingCall (memeJobAddress s) tokenAddr),
                 Ext (ScheduleCall (this s2) dl (EXECUTION_GAS_LIMIT s2)),
                 Emit (TokenSubmitted reviewId tokenAddr sender msgValue dl)]))"

definition submitThesis ::
    "nat \<Rightarrow> address \<Rightarrow> nat \<Rightarrow> string \<Rightarrow> bool \<Rightarrow> uint256 \<Rightarrow> address \<Rightarrow> state \<Rightarrow> outcome" where
  "submitThesis now sender reviewId txt bull pledged dlg s =
     (if \<not> exists (reviews s reviewId) then Inl ReviewDoesNotExist
      else if executed (reviews s reviewId) then Inl AlreadyExecuted
      else if \<not> now < deadline (reviews s reviewId) then Inl ReviewWindowClosed
      else let d = delegations s dlg sender in
      if delegate d \<noteq> sender then Inl NoValidDelegation
      else if \<not> (expiry d = 0 \<or> now < expiry d) then Inl DelegationExpired
      else if agent (theses s reviewId sender) \<noteq> 0 then Inl ThesisAlreadySubmitted
      else if bull then
        (if \<not> pledged > 0 then Inl MustPledgeIfBullish
         else if \<not> pledged \<le> maxAmount d then Inl ExceedsDelegationLimit
         else if \<not> agentEscrow s sender \<ge> pledged then Inl InsufficientEscrow
         else if totalPledged (reviews s reviewId) + pledged > MAX_UINT256 then Inl Panic
         else Inr (s\<lparr>agentEscrow := (agentEscrow s)(sender := agentEscrow s sender - pledged),
                     reviews := (reviews s)(reviewId := (reviews s reviewId)
                        \<lparr>totalPledged := totalPledged (reviews s reviewId) + pledged\<rparr>),
                     agentShares := (agentShares s)(reviewId := (agentShares s reviewId)(sender :=
                        \<lparr>pledgedAmount = pledged, tokenShare = 0, claimed = False\<rparr>)),
                     theses := (theses s)(reviewId := (theses s reviewId)(sender :=
                        \<lparr>agent = sender, thesisText = txt, bullish = bull,
                         thesisPledged = pledged, submittedAt = now\<rparr>)),
                     reviewAgents := (reviewAgents s)(reviewId := reviewAgents s reviewId @ [sender])\<rparr>,
                   [Emit (ThesisSubmitted reviewId sender bull pledged)]))
      else
        Inr (s\<lparr>theses := (theses s)(reviewId := (theses s reviewId)(sender :=
                   \<lparr>agent = sender, thesisText = txt, bullish = bull,
                    thesisPledged = 0, submittedAt = now\<rparr>)),
                reviewAgents := (reviewAgents s)(reviewId := reviewAgents s reviewId @ [sender])\<rparr>,
             [Emit (ThesisSubmitted reviewId sender bull 0)]))"


section \<open>Execution, allocation and fee distribution\<close>

text \<open>The allocation loop of \<^verbatim>\<open>executeReview\<close>.  \<^verbatim>\<open>agents\<close> is a storage reference, so the
  array and its length are read from the current state in every iteration.\<close>

function allocateShares :: "nat \<Rightarrow> uint256 \<Rightarrow> uint256 \<Rightarrow> nat \<Rightarrow> state \<Rightarrow> outcome" where
  "allocateShares reviewId totalPl tokensReceived i s =
     (if i < length (reviewAgents s reviewId) then
        (let agt = reviewAgents s reviewId ! i;
             share = agentShares s reviewId agt in
         if pledgedAmount share > 0 \<and> tokensReceived > 0 then
           (if pledgedAmount share * tokensReceived > MAX_UINT256 then Inl Panic
            else if totalPl = 0 then Inl Panic
            else let share1 = share\<lparr>tokenShare := (pledgedAmount share * tokensReceived) div totalPl\<rparr>;
                     s1 = s\<lparr>agentShares := (agentShares s)(reviewId :=
                             (agentShares s reviewId)(agt := share1))\<rparr> in
                 after [Emit (AgentShareUpdated reviewId agt (tokenShare share1))]
                   (allocateShares reviewId totalPl tokensReceived (i + 1) s1))
         else allocateShares reviewId totalPl tokensReceived (i + 1) s)
      else Inr (s, []))"
  by pat_completeness auto
termination
  by (relation "measure (\<lambda>(r, tp, tr, i, s). length (reviewAgents s r) - i)") auto

declare allocateShares.simps [simp del]

text \<open>The payment loop of \<^verbatim>\<open>_distributeSubmissionFee\<close>.  \<^verbatim>\<open>agentCount\<close>, \<^verbatim>\<open>perAgent\<close> and
  \<^verbatim>\<open>remainder\<close> are locals computed before the loop; \<^verbatim>\<open>agents[i]\<close> is read from storage
  (an index past the end of the array panics).  \<open>gas\<close> is the gas the frame has left.  A
  round needs \<open>iterationGas\<close> of it and the value call another \<open>G_callvalue\<close>, or the frame
  is out of gas and the whole transaction reverts.  A failed call leaves the state as it
  was, costs the gas the callee used, and the loop goes on.\<close>

function distributeLoop ::
    "env \<Rightarrow> nat \<Rightarrow> nat \<Rightarrow> uint256 \<Rightarrow> uint256 \<Rightarrow> nat \<Rightarrow> nat \<Rightarrow> state \<Rightarrow> outcome" where
  "distributeLoop ev reviewId agentCount perAgent remainder i gas s =
     (if i < agentCount then
        (if gas < iterationGas ev then Inl OutOfGas
         else if \<not> i < length (reviewAgents s reviewId) then Inl Panic
         else let agt = reviewAgents s reviewId ! i;
                  payout = (if i = agentCount - 1 then perAgent + remainder else perAgent) in
           if payout > 0 then
             (if gas - iterationGas ev < G_callvalue then Inl OutOfGas
              else case callValue ev agt payout (forwarded (gas - iterationGas ev - G_callvalue)) s of
                (Some s1, used) \<Rightarrow>
                  after [Ext (ValueCall agt payout True), Emit (FeeDistributed reviewId agt payout)]
                    (distributeLoop ev reviewId agentCount perAgent remainder (i + 1)
                       (gasAfter (gas - iterationGas ev - G_callvalue) used) s1)
              | (None, used) \<Rightarrow>
                  after [Ext (ValueCall agt payout False)]
                    (distributeLoop ev reviewId agentCount perAgent remainder (i + 1)
                       (gasAfter (gas - iterationGas ev - G_callvalue) used) s))
           else distributeLoop ev reviewId agentCount perAgent remainder (i + 1)
                  (gas - iterationGas ev) s)
      else Inr (s, []))"
  by pat_completeness auto
termination
  by (relation "measure (\<lambda>(ev, r, n, p, rm, i, g, s). n - i)") auto

declare distributeLoop.simps [simp del]

definition distributeSubmissionFee :: "env \<Rightarrow> nat \<Rightarrow> nat \<Rightarrow> state \<Rightarrow> outcome" where
  "distributeSubmissionFee ev reviewId gas s =
     (let agentCount = length (reviewAgents s reviewId) in
      if agentCount = 0 then Inr (s, [])
      else let fee = submissionFee (reviews s reviewId);
               perAgent = fee div agentCount;
               remainder = fee - perAgent * agentCount in
           distributeLoop ev reviewId agentCount perAgent remainder 0 gas s)"

text \<open>\<^verbatim>\<open>executeReview\<close>; \<open>gas\<close> is the gas of the frame on entry.\<close>

definition executeReview :: "env \<Rightarrow> nat \<Rightarrow> nat \<Rightarrow> nat \<Rightarrow> state \<Rightarrow> outcome" where
  "executeReview ev now reviewId gas s =
     (if \<not> exists (reviews s reviewId) then Inl ReviewDoesNotExist
      else if executed (reviews s reviewId) then Inl AlreadyExecuted
      else if \<not> now \<ge> deadline (reviews s reviewId) then Inl WindowNotClosedYet
      else let s1 = s\<lparr>reviews := (reviews s)(reviewId := (reviews s reviewId)\<lparr>executed := True\<rparr>)\<rparr>;
               totalPl = totalPledged (reviews s1 reviewId) in
      if totalPl = 0 then distributeSubmissionFee ev reviewId gas s1
      else let token = tokenAddress (reviews s1 reviewId) in
      case balanceOf ev token (this s1) (forwarded gas) s1 of None \<Rightarrow> Inl ExternalRevert
      | Some (balanceBefore, used0) \<Rightarrow>
      let gas1 = gasAfter gas used0 in
      if gas1 < G_callvalue then Inl OutOfGas
      else case buyJob ev (memeJobAddress s1) token totalPl 0 (forwarded (gas1 - G_callvalue)) s1 of
        None \<Rightarrow> Inl ExternalRevert
      | Some (s2, used1) \<Rightarrow>
      let gas2 = gasAfter (gas1 - G_callvalue) used1 in
      case balanceOf ev token (this s2) (forwarded gas2) s2 of None \<Rightarrow> Inl ExternalRevert
      | Some (balanceAfter, used2) \<Rightarrow>
      let gas3 = gasAfter gas2 used2 in
      if balanceAfter < balanceBefore then Inl Panic
      else let tokensReceived = balanceAfter - balanceBefore;
               s3 = s2\<lparr>reviews := (reviews s2)(reviewId :=
                      (reviews s2 reviewId)\<lparr>totalPurchased := tokensReceived\<rparr>)\<rparr> in
      after [Ext (BalanceOfCall token (this s1)),
             Ext (BuyJobCall (memeJobAddress s1) token totalPl 0),
             Ext (BalanceOfCall token (this s2))]
        (case allocateShares reviewId totalPl tokensReceived 0 s3 of Inl e \<Rightarrow> Inl e | Inr (s4, fx4) \<Rightarrow>
           after fx4
             (case distributeSubmissionFee ev reviewId gas3 s4 of Inl e \<Rightarrow> Inl e | Inr (s5, fx5) \<Rightarrow>
                Inr (s5, fx5 @ [Emit (ReviewExecuted reviewId totalPl tokensReceived)]))))"

section \<open>Claiming\<close>

definition claimTokens :: "env \<Rightarrow> address \<Rightarrow> nat \<Rightarrow> state \<Rightarrow> outcome" where
  "claimTokens ev sender reviewId s =
     (if \<not> exists (reviews s reviewId) then Inl ReviewDoesNotExist
      else if \<not> executed (reviews s reviewId) then Inl NotYetExecuted
      else let share = agentShares s reviewId sender in
      if \<not> tokenShare share > 0 then Inl NoTokensToClaim
      else if claimed share then Inl AlreadyClaimed
      else let s1 = s\<lparr>agentShares := (agentShares s)(reviewId :=
                      (agentShares s reviewId)(sender := share\<lparr>claimed := True\<rparr>))\<rparr>;
               token = tokenAddress (reviews s1 reviewId);
               amount = tokenShare (agentShares s1 reviewId sender) in
      case transfer ev token sender amount s1 of None \<Rightarrow> Inl ExternalRevert | Some (ok, s2) \<Rightarrow>
      if \<not> ok then Inl TransferFailed
      else Inr (s2, [Ext (TransferCall token sender amount),
                     Emit (TokensClaimed reviewId sender (tokenShare (agentShares s2 reviewId sender)))]))"

section \<open>Transactions and re-entrancy\<close>

text \<open>The state-changing entry points of the contract with their arguments.\<close>

datatype call =
    SetMemeJobAddress address
  | RegisterDelegation address uint256 uint256 "nat list"
  | DepositForAgent address
  | RevokeDelegation address
  | RegisterAgent string
  | SubmitToken address
  | SubmitThesis nat string bool uint256 address
  | ExecuteReview nat
  | UpdateReputation nat address bool
  | ClaimTokens nat

text \<open>One message call into the contract: \<open>now\<close> is \<^verbatim>\<open>block.timestamp\<close>, \<open>sender\<close> is
  \<^verbatim>\<open>msg.sender\<close>, \<open>msgValue\<close> is \<^verbatim>\<open>msg.value\<close> and \<open>gas\<close> is the gas given to the call.
  Only \<^verbatim>\<open>depositForAgent\<close> and \<^verbatim>\<open>submitToken\<close> are payable.\<close>

fun dispatch :: "env \<Rightarrow> nat \<Rightarrow> address \<Rightarrow> uint256 \<Rightarrow> nat \<Rightarrow> call \<Rightarrow> state \<Rightarrow> outcome" where
  "dispatch ev now sender msgValue gas (DepositForAgent a) s = depositForAgent now sender msgValue a s"
| "dispatch ev now sender msgValue gas (SubmitToken t) s = submitToken ev now sender msgValue t s"
| "dispatch ev now sender msgValue gas c s =
     (if msgValue > 0 then Inl NonPayable
      else case c of
        SetMemeJobAddress a \<Rightarrow> setMemeJobAddress sender a s
      | RegisterDelegation a m e sig \<Rightarrow> registerDelegation sender a m e sig s
      | RevokeDelegation a \<Rightarrow> revokeDelegation sender a s
      | RegisterAgent uri \<Rightarrow> registerAgent now sender uri s
      | SubmitThesis r txt b p d \<Rightarrow> submitThesis now sender r txt b p d s
      | ExecuteReview r \<Rightarrow> executeReview ev now r gas s
      | UpdateReputation r a p \<Rightarrow> updateReputation sender r a p s
      | ClaimTokens r \<Rightarrow> claimTokens ev sender r s
      | _ \<Rightarrow> Inl NonPayable)"

text \<open>
  What code outside the contract can do to the state while it has control within one
  transaction (timestamp \<open>now\<close>): nothing, change external token balances, or make a
  successful call into the contract as some non-zero sender.  The callees of that call are
  again such code, so the relation is closed under re-entrancy of any depth.  A call that
  reverts changes nothing and needs no rule.
\<close>

inductive external :: "nat \<Rightarrow> state \<Rightarrow> state \<Rightarrow> bool" for now :: nat where
  ext_refl: "external now s s"
| ext_ledger: "external now s s1 \<Longrightarrow> external now s (s1\<lparr>tokens := ledger\<rparr>)"
| ext_call: "external now s s1 \<Longrightarrow> sender \<noteq> 0 \<Longrightarrow>
     (\<forall>m t a r g w w' u. buyJob ev m t a r g w = Some (w', u) \<longrightarrow> external now w w') \<Longrightarrow>
     (\<forall>a p g w w' u. callValue ev a p g w = (Some w', u) \<longrightarrow> external now w w') \<Longrightarrow>
     (\<forall>t a n w ok w'. transfer ev t a n w = Some (ok, w') \<longrightarrow> external now w w') \<Longrightarrow>
     dispatch ev now sender msgValue gas c s1 = Inr (s2, fx) \<Longrightarrow> external now s s2"

text \<open>An environment all of whose state-changing callees are such external code.\<close>

definition admissible :: "nat \<Rightarrow> env \<Rightarrow> bool" where
  "admissible now ev \<longleftrightarrow>
     (\<forall>m t a r g w w' u. buyJob ev m t a r g w = Some (w', u) \<longrightarrow> external now w w') \<and>
     (\<forall>a p g w w' u. callValue ev a p g w = (Some w', u) \<longrightarrow> external now w w') \<and>
     (\<forall>t a n w ok w'. transfer ev t a n w = Some (ok, w') \<longrightarrow> external now w w')"

text \<open>The states the deployed contract can be in between transactions.\<close>

inductive reachable :: "state \<Rightarrow> bool" where
  reach_init: "reachable (constructor self sender memeJob minFee window gasLimit ledger)"
| reach_step: "reachable s \<Longrightarrow> external now s s' \<Longrightarrow> reachable s'"


text \<open>Any number of later transactions, each with its own timestamp.\<close>

definition later :: "state \<Rightarrow> state \<Rightarrow> bool" where
  "later = (\<lambda>s s'. \<exists>now. external now s s')\<^sup>*\<^sup>*"

section \<open>Invariants\<close>

text \<open>
  The state invariant, per review id: an existing review has an id below the counter; only
  existing reviews are executed; a review that does not exist has no participants and no
  pledges; the participant list has no duplicates and every participant has a thesis
  record; an address that is not a participant has the zero share; the share and the thesis
  of an agent record the same pledge, which is positive exactly for a bullish thesis; the
  pledges of the participants add up to \<^verbatim>\<open>totalPledged\<close>; and no token share is set before
  execution.
\<close>

definition review_ok :: "state \<Rightarrow> nat \<Rightarrow> bool" where
  "review_ok s rid \<longleftrightarrow>
      (exists (reviews s rid) \<longrightarrow> rid < nextReviewId s) \<and>
      (executed (reviews s rid) \<longrightarrow> exists (reviews s rid)) \<and>
      (\<not> exists (reviews s rid) \<longrightarrow> reviewAgents s rid = [] \<and> totalPledged (reviews s rid) = 0) \<and>
      distinct (reviewAgents s rid) \<and>
      (\<forall>a \<in> set (reviewAgents s rid). agent (theses s rid a) \<noteq> 0) \<and>
      (\<forall>a. a \<notin> set (reviewAgents s rid) \<longrightarrow> agentShares s rid a = zeroShare) \<and>
      (\<forall>a. thesisPledged (theses s rid a) = pledgedAmount (agentShares s rid a) \<and>
           (bullish (theses s rid a) \<longleftrightarrow> 0 < pledgedAmount (agentShares s rid a))) \<and>
      (\<Sum>a\<leftarrow>reviewAgents s rid. pledgedAmount (agentShares s rid a)) = totalPledged (reviews s rid) \<and>
      (\<not> executed (reviews s rid) \<longrightarrow> (\<forall>a. tokenShare (agentShares s rid a) = 0))"

definition wfs :: "state \<Rightarrow> bool" where
  "wfs s \<longleftrightarrow> (\<forall>rid. review_ok s rid)"

text \<open>What stays fixed about a review between two states: its record, its participants,
  its theses, every pledge and token share; a share that was claimed stays claimed.\<close>

definition frozen :: "nat \<Rightarrow> state \<Rightarrow> state \<Rightarrow> bool" where
  "frozen rid s s' \<longleftrightarrow>
     reviews s' rid = reviews s rid \<and> reviewAgents s' rid = reviewAgents s rid \<and>
     theses s' rid = theses s rid \<and>
     (\<forall>a. pledgedAmount (agentShares s' rid a) = pledgedAmount (agentShares s rid a) \<and>
          tokenShare (agentShares s' rid a) = tokenShare (agentShares s rid a) \<and>
          (claimed (agentShares s rid a) \<longrightarrow> claimed (agentShares s' rid a)))"

text \<open>A state change that keeps the invariant, the contract's address, and every review
  that was already executed.\<close>

definition safe :: "state \<Rightarrow> state \<Rightarrow> bool" where
  "safe s s' \<longleftrightarrow>
     (wfs s \<longrightarrow> wfs s' \<and> this s' = this s \<and> (\<forall>rid. executed (reviews s rid) \<longrightarrow> frozen rid s s'))"

definition callees_safe :: "env \<Rightarrow> bool" where
  "callees_safe ev \<longleftrightarrow>
     (\<forall>m t a r g w w' u. buyJob ev m t a r g w = Some (w', u) \<longrightarrow> safe w w') \<and>
     (\<forall>a p g w w' u. callValue ev a p g w = (Some w', u) \<longrightarrow> safe w w') \<and>
     (\<forall>t a n w ok w'. transfer ev t a n w = Some (ok, w') \<longrightarrow> safe w w')"


section \<open>Reading the effects of a call\<close>

text \<open>The value transfers a frame attempted, in order, as (recipient, amount), whether or
  not the recipient accepted them.\<close>

fun attempts :: "effect list \<Rightarrow> (address \<times> uint256) list" where
  "attempts [] = []"
| "attempts (Ext (ValueCall a p ok) # fx) = (a, p) # attempts fx"
| "attempts (e # fx) = attempts fx"

text \<open>The effects fee distribution can have for review \<open>r\<close>: a value transfer, or the
  \<^verbatim>\<open>FeeDistributed\<close> event of that review.\<close>

fun isFeeEffect :: "nat \<Rightarrow> effect \<Rightarrow> bool" where
  "isFeeEffect r (Ext (ValueCall a p ok)) = True"
| "isFeeEffect r (Emit (FeeDistributed r' a p)) = (r' = r)"
| "isFeeEffect r e = False"

text \<open>The amounts the payment loop offers to positions \<open>0 .. n - 1\<close> of the participant
  list, written as the loop computes them.\<close>

definition loopPayouts :: "nat \<Rightarrow> uint256 \<Rightarrow> uint256 \<Rightarrow> uint256 list" where
  "loopPayouts n perAgent remainder =
     map (\<lambda>i. if i = n - 1 then perAgent + remainder else perAgent) [0..<n]"

text \<open>The fee split in the words of the specification: every submitter but the last
  receives \<open>floor (fee / n)\<close>, the last one receives that plus the remainder.\<close>

definition expectedPayouts :: "uint256 \<Rightarrow> nat \<Rightarrow> uint256 list" where
  "expectedPayouts fee n =
     replicate (n - 1) (fee div n) @ [fee div n + (fee - (fee div n) * n)]"


text \<open>The two irreversible flag writes, named for use in statements: the state right
  after \<^verbatim>\<open>review.executed = true\<close> and right after \<^verbatim>\<open>share.claimed = true\<close>.\<close>

definition markExecuted :: "nat \<Rightarrow> state \<Rightarrow> state" where
  "markExecuted r s = s\<lparr>reviews := (reviews s)(r := (reviews s r)\<lparr>executed := True\<rparr>)\<rparr>"

definition markClaimed :: "nat \<Rightarrow> address \<Rightarrow> state \<Rightarrow> state" where
  "markClaimed r a s = s\<lparr>agentShares := (agentShares s)(r :=
       (agentShares s r)(a := (agentShares s r a)\<lparr>claimed := True\<rparr>))\<rparr>"

text \<open>The state a transaction leaves behind: a revert leaves the state it started from.\<close>

fun stateAfter :: "state \<Rightarrow> outcome \<Rightarrow> state" where
  "stateAfter s (Inl e) = s"
| "stateAfter s (Inr (s', fx)) = s'"

text \<open>The value transfers the recipient accepted.\<close>

fun paid :: "effect list \<Rightarrow> (address \<times> uint256) list" where
  "paid [] = []"
| "paid (Ext (ValueCall a p True) # fx) = (a, p) # paid fx"
| "paid (e # fx) = paid fx"

text \<open>The \<^verbatim>\<open>FeeDistributed\<close> events of review \<open>r\<close> in the effects, as (agent, amount).\<close>

fun feeEvents :: "nat \<Rightarrow> effect list \<Rightarrow> (address \<times> uint256) list" where
  "feeEvents r [] = []"
| "feeEvents r (Emit (FeeDistributed r' a p) # fx) =
     (if r' = r then (a, p) # feeEvents r fx else feeEvents r fx)"
| "feeEvents r (e # fx) = feeEvents r fx"

text \<open>Two environments with the same gas schedule whose callees behave alike in every state
  that satisfies \<open>P\<close>; what the callees do in other states is left open.\<close>

definition agree_on :: "(state \<Rightarrow> bool) \<Rightarrow> env \<Rightarrow> env \<Rightarrow> bool" where
  "agree_on P ev ev' \<longleftrightarrow>
     iterationGas ev = iterationGas ev' \<and>
     (\<forall>w. P w \<longrightarrow>
        (\<forall>t a g. balanceOf ev t a g w = balanceOf ev' t a g w) \<and>
        (\<forall>m t a r g. buyJob ev m t a r g w = buyJob ev' m t a r g w) \<and>
        (\<forall>a p g. callValue ev a p g w = callValue ev' a p g w) \<and>
        (\<forall>t a n. transfer ev t a n w = transfer ev' t a n w))"

section \<open>The fee distribution of the specification\<close>

text \<open>
  Fee distribution as the specification describes it: a fold over the submitters with their
  amounts, in submission order, that never short-circuits on a failed payment.  Every
  round needs \<open>iterationGas\<close>.  A zero amount is not sent.  Every other amount is offered by a
  value call, which needs \<open>G_callvalue\<close> gas; the submitter is paid, and the
  \<^verbatim>\<open>FeeDistributed\<close> event emitted, exactly when that call succeeds; after a failed call
  the fold goes on from the unchanged state with the gas that is left.
\<close>

fun payEach :: "env \<Rightarrow> nat \<Rightarrow> (address \<times> uint256) list \<Rightarrow> nat \<Rightarrow> state \<Rightarrow> outcome" where
  "payEach ev r [] gas s = Inr (s, [])"
| "payEach ev r ((a, q) # rest) gas s =
     (if gas < iterationGas ev then Inl OutOfGas
      else if q = 0 then payEach ev r rest (gas - iterationGas ev) s
      else if gas - iterationGas ev < G_callvalue then Inl OutOfGas
      else case callValue ev a q (forwarded (gas - iterationGas ev - G_callvalue)) s of
        (Some s1, used) \<Rightarrow>
          after [Ext (ValueCall a q True), Emit (FeeDistributed r a q)]
            (payEach ev r rest (gasAfter (gas - iterationGas ev - G_callvalue) used) s1)
      | (None, used) \<Rightarrow>
          after [Ext (ValueCall a q False)]
            (payEach ev r rest (gasAfter (gas - iterationGas ev - G_callvalue) used) s))"

text \<open>The value transfers the recipient did not accept.\<close>

fun refused :: "effect list \<Rightarrow> (address \<times> uint256) list" where
  "refused [] = []"
| "refused (Ext (ValueCall a p False) # fx) = (a, p) # refused fx"
| "refused (e # fx) = refused fx"

text \<open>A recipient that accepts every value transfer, and one that accepts none.\<close>

definition accepts :: "env \<Rightarrow> address \<Rightarrow> bool" where
  "accepts ev a \<longleftrightarrow> (\<forall>q g w. fst (callValue ev a q g w) \<noteq> None)"

definition rejects :: "env \<Rightarrow> address \<Rightarrow> bool" where
  "rejects ev a \<longleftrightarrow> (\<forall>q g w. fst (callValue ev a q g w) = None)"

text \<open>Whether a call returned, and the effects of a call that did.\<close>

fun succeeded :: "outcome \<Rightarrow> bool" where
  "succeeded (Inl e) = False"
| "succeeded (Inr x) = True"

fun effectsOf :: "outcome \<Rightarrow> effect list" where
  "effectsOf (Inl e) = []"
| "effectsOf (Inr (s, fx)) = fx"

section \<open>An example environment\<close>

text \<open>
  An ERC-20 transfer that does what the standard says: it reverts when the sender's balance
  is too small and otherwise moves \<open>amount\<close> and returns \<open>true\<close>.
\<close>

definition moveTokens ::
    "address \<Rightarrow> address \<Rightarrow> address \<Rightarrow> uint256 \<Rightarrow> state \<Rightarrow> (bool \<times> state) option" where
  "moveTokens token from to amount s =
     (if tokens s token from < amount then None
      else let b1 = (tokens s token)(from := tokens s token from - amount) in
           Some (True, s\<lparr>tokens := (tokens s)(token := b1(to := b1 to + amount))\<rparr>))"

text \<open>How a recipient treats a value transfer: it accepts it, it fails at once (a contract
  without a \<^verbatim>\<open>receive\<close> function), or it fails after using all the gas it was given.\<close>

datatype recipient = Accepting | Rejecting | Burning

text \<open>
  An environment for the examples.  The venue knows the tokens in \<open>listed\<close> and delivers
  \<open>1000\<close> tokens per \<open>10 ^ 18\<close> units of value, at least one; the tokens keep balances and
  transfer as above; the schedule service answers with success (\<open>22\<close>) and the address \<open>1\<close>;
  the venue, the tokens and an accepting recipient use no gas worth counting, and neither
  do the contract's own instructions.
\<close>

definition exampleEnv :: "(address \<Rightarrow> bool) \<Rightarrow> (address \<Rightarrow> recipient) \<Rightarrow> env" where
  "exampleEnv listed kind =
     \<lparr>balanceOf = (\<lambda>token account gas s. Some (tokens s token account, 0)),
      buyJob = (\<lambda>memeJob token amount referrer gas s.
         if \<not> listed token then None
         else let issued = (if amount * 1000 div 10 ^ 18 = 0 then 1 else amount * 1000 div 10 ^ 18) in
              Some (s\<lparr>tokens := (tokens s)(token :=
                      (tokens s token)(this s := tokens s token (this s) + issued))\<rparr>, 0)),
      callValue = (\<lambda>to amount gas s.
         case kind to of Accepting \<Rightarrow> (Some s, 0) | Rejecting \<Rightarrow> (None, 0) | Burning \<Rightarrow> (None, gas)),
      transfer = (\<lambda>token to amount s. moveTokens token (this s) to amount s),
      addressToMemeTokenMapping = (\<lambda>memeJob token s. Some (if listed token then token else 0)),
      scheduleCall = (\<lambda>to expirySecond gasLimit s. (22, 1)),
      iterationGas = 0\<rparr>"

section \<open>A concrete deployment\<close>

text \<open>
  The contract at address \<open>100\<close>, deployed by account \<open>1\<close> against the MemeJob contract at
  \<open>50\<close> with a minimum fee of \<open>100\<close> and a review window of \<open>600\<close> seconds.
\<close>

definition demoFresh :: state where
  "demoFresh = constructor 100 1 50 100 600 1000000 (\<lambda>_ _. 0)"

text \<open>
  The same deployment later: principal \<open>5\<close> has delegated to the agents \<open>7\<close>, \<open>8\<close> and \<open>9\<close>;
  review \<open>0\<close> of token \<open>60\<close> (fee \<open>100\<close>, deadline \<open>600\<close>) is open; agent \<open>7\<close> has pledged
  \<open>4 * 10 ^ 17\<close>, agent \<open>8\<close> has pledged \<open>6 * 10 ^ 17\<close>, and agent \<open>9\<close> has submitted a
  bearish thesis.
\<close>

definition demoOpen :: state where
  "demoOpen =
     \<lparr>this = 100, REVIEW_WINDOW = 600, EXECUTION_GAS_LIMIT = 1000000, MIN_SUBMISSION_FEE = 100,
      owner = 1, memeJobAddress = 50, nextReviewId = 1,
      reviews = (\<lambda>_. zeroReview)(0 :=
         \<lparr>tokenAddress = 60, creator = 2, submissionFee = 100, deadline = 600, executed = False,
          exists = True, totalPledged = 1000000000000000000, totalPurchased = 0,
          scheduleAddress = 1\<rparr>),
      theses = (\<lambda>_ _. zeroThesis)(0 := (\<lambda>_. zeroThesis)
         (7 := \<lparr>agent = 7, thesisText = ''buy'', bullish = True,
                 thesisPledged = 400000000000000000, submittedAt = 10\<rparr>,
          8 := \<lparr>agent = 8, thesisText = ''buy'', bullish = True,
                 thesisPledged = 600000000000000000, submittedAt = 11\<rparr>,
          9 := \<lparr>agent = 9, thesisText = ''skip'', bullish = False,
                 thesisPledged = 0, submittedAt = 12\<rparr>)),
      reviewAgents = (\<lambda>_. [])(0 := [7, 8, 9]),
      agentShares = (\<lambda>_ _. zeroShare)(0 := (\<lambda>_. zeroShare)
         (7 := \<lparr>pledgedAmount = 400000000000000000, tokenShare = 0, claimed = False\<rparr>,
          8 := \<lparr>pledgedAmount = 600000000000000000, tokenShare = 0, claimed = False\<rparr>)),
      delegations = (\<lambda>_ _. zeroDelegation)(5 := (\<lambda>_. zeroDelegation)
         (7 := \<lparr>delegator = 5, delegate = 7, maxAmount = 1000000000000000000, expiry = 0, signature = []\<rparr>,
          8 := \<lparr>delegator = 5, delegate = 8, maxAmount = 1000000000000000000, expiry = 0, signature = []\<rparr>,
          9 := \<lparr>delegator = 5, delegate = 9, maxAmount = 1000000000000000000, expiry = 0, signature = []\<rparr>)),
      agentIdentities = (\<lambda>_. zeroIdentity),
      agentEscrow = (\<lambda>_. 0)(7 := 600000000000000000, 8 := 400000000000000000),
      tokens = (\<lambda>_ _. 0)\<rparr>"

text \<open>
  A deployment in which review \<open>0\<close> (fee \<open>100\<close>, deadline \<open>600\<close>) has a single submitter,
  agent \<open>9\<close>, whose thesis is bearish: nothing is pledged.
\<close>

definition demoBearish :: state where
  "demoBearish =
     \<lparr>this = 100, REVIEW_WINDOW = 600, EXECUTION_GAS_LIMIT = 1000000, MIN_SUBMISSION_FEE = 100,
      owner = 1, memeJobAddress = 50, nextReviewId = 1,
      reviews = (\<lambda>_. zeroReview)(0 :=
         \<lparr>tokenAddress = 60, creator = 2, submissionFee = 100, deadline = 600, executed = False,
          exists = True, totalPledged = 0, totalPurchased = 0, scheduleAddress = 1\<rparr>),
      theses = (\<lambda>_ _. zeroThesis)(0 := (\<lambda>_. zeroThesis)
         (9 := \<lparr>agent = 9, thesisText = ''skip'', bullish = False,
                 thesisPledged = 0, submittedAt = 12\<rparr>)),
      reviewAgents = (\<lambda>_. [])(0 := [9]),
      agentShares = (\<lambda>_ _. zeroShare),
      delegations = (\<lambda>_ _. zeroDelegation)(5 := (\<lambda>_. zeroDelegation)
         (9 := \<lparr>delegator = 5, delegate = 9, maxAmount = 1000000000000000000, expiry = 0, signature = []\<rparr>)),
      agentIdentities = (\<lambda>_. zeroIdentity),
      agentEscrow = (\<lambda>_. 0),
      tokens = (\<lambda>_ _. 0)\<rparr>"

text \<open>The environments of the examples: token \<open>60\<close> is listed at the venue; in the first
  every recipient accepts, in the second agent \<open>7\<close> rejects its payment, in the third the
  agents \<open>7\<close> and \<open>8\<close> burn the gas they are given.\<close>

definition demoEnv :: env where
  "demoEnv = exampleEnv (\<lambda>t. t = 60) (\<lambda>a. Accepting)"

definition demoEnvRejecting :: env where
  "demoEnvRejecting = exampleEnv (\<lambda>t. t = 60) (\<lambda>a. if a = 7 then Rejecting else Accepting)"


lemma safe_refl: "safe s s"
  by (simp add: safe_def frozen_def)

lemma frozen_refl: "frozen r s s"
  by (simp add: frozen_def)

lemma frozen_trans: "frozen r s s1 \<Longrightarrow> frozen r s1 s2 \<Longrightarrow> frozen r s s2"
  by (simp add: frozen_def)

lemma frozen_executed: "frozen r s s1 \<Longrightarrow> executed (reviews s1 r) = executed (reviews s r)"
  by (simp add: frozen_def)

lemma safe_trans: 
  assumes "safe s s1" "safe s1 s2" shows "safe s s2"
  unfolding safe_def
proof (intro impI conjI allI)
  assume w: "wfs s"
  with assms(1) have w1: "wfs s1" and t1: "this s1 = this s" and f1: "\<And>r. executed (reviews s r) \<Longrightarrow> frozen r s s1"
    by (simp_all add: safe_def)
  from w1 assms(2) have w2: "wfs s2" and t2: "this s2 = this s1" and f2: "\<And>r. executed (reviews s1 r) \<Longrightarrow> frozen r s1 s2"
    by (simp_all add: safe_def)
  show "wfs s2" by (rule w2)
  show "this s2 = this s" using t1 t2 by simp
  fix rid assume e: "executed (reviews s rid)"
  from f1[OF e] have a: "frozen rid s s1" .
  with e have "executed (reviews s1 rid)" by (simp add: frozen_executed)
  from f2[OF this] a show "frozen rid s s2" by (blast intro: frozen_trans)
qed

lemma wfs_cong:
  "reviews s' = reviews s \<Longrightarrow> nextReviewId s' = nextReviewId s \<Longrightarrow>
   reviewAgents s' = reviewAgents s \<Longrightarrow> theses s' = theses s \<Longrightarrow>
   agentShares s' = agentShares s \<Longrightarrow> wfs s' = wfs s"
  unfolding wfs_def review_ok_def by simp

lemma safe_frame:
  "reviews s' = reviews s \<Longrightarrow> nextReviewId s' = nextReviewId s \<Longrightarrow>
   reviewAgents s' = reviewAgents s \<Longrightarrow> theses s' = theses s \<Longrightarrow>
   agentShares s' = agentShares s \<Longrightarrow> this s' = this s \<Longrightarrow> safe s s'"
  using wfs_cong[of s' s] by (simp add: safe_def frozen_def)

lemma safe_tokens: "safe s (s\<lparr>tokens := l\<rparr>)"
  by (rule safe_frame) simp_all

lemma setMemeJobAddress_safe: "setMemeJobAddress sender a s = Inr (s', fx) \<Longrightarrow> safe s s'"
  by (auto simp: setMemeJobAddress_def split: if_splits intro!: safe_frame)

lemma registerDelegation_safe: "registerDelegation sender a m e sg s = Inr (s', fx) \<Longrightarrow> safe s s'"
  by (auto simp: registerDelegation_def split: if_splits intro!: safe_frame)

lemma depositForAgent_safe: "depositForAgent now sender v a s = Inr (s', fx) \<Longrightarrow> safe s s'"
  by (auto simp: depositForAgent_def Let_def split: if_splits intro!: safe_frame)

lemma revokeDelegation_safe: "revokeDelegation sender a s = Inr (s', fx) \<Longrightarrow> safe s s'"
  by (auto simp: revokeDelegation_def Let_def  split: if_splits intro!: safe_frame)

lemma registerAgent_safe: "registerAgent now sender uri s = Inr (s', fx) \<Longrightarrow> safe s s'"
  by (auto simp: registerAgent_def Let_def split: if_splits intro!: safe_frame)

lemma updateReputation_safe: "updateReputation sender r a p s = Inr (s', fx) \<Longrightarrow> safe s s'"
  by (auto simp: updateReputation_def Let_def split: if_splits intro!: safe_frame)

lemma wfsD:
  assumes "wfs s"
  shows "exists (reviews s rid) \<Longrightarrow> rid < nextReviewId s"
    and "executed (reviews s rid) \<Longrightarrow> exists (reviews s rid)"
    and "\<not> exists (reviews s rid) \<Longrightarrow> reviewAgents s rid = []"
    and "\<not> exists (reviews s rid) \<Longrightarrow> totalPledged (reviews s rid) = 0"
    and "distinct (reviewAgents s rid)"
    and "a \<in> set (reviewAgents s rid) \<Longrightarrow> agent (theses s rid a) \<noteq> 0"
    and "a \<notin> set (reviewAgents s rid) \<Longrightarrow> agentShares s rid a = zeroShare"
    and "thesisPledged (theses s rid a) = pledgedAmount (agentShares s rid a)"
    and "bullish (theses s rid a) \<longleftrightarrow> 0 < pledgedAmount (agentShares s rid a)"
    and "(\<Sum>a\<leftarrow>reviewAgents s rid. pledgedAmount (agentShares s rid a)) = totalPledged (reviews s rid)"
    and "\<not> executed (reviews s rid) \<Longrightarrow> tokenShare (agentShares s rid a) = 0"
  using assms unfolding wfs_def review_ok_def by blast+

lemma review_ok_cong:
  "reviews s' rid = reviews s rid \<Longrightarrow> nextReviewId s \<le> nextReviewId s' \<Longrightarrow>
   reviewAgents s' rid = reviewAgents s rid \<Longrightarrow> theses s' rid = theses s rid \<Longrightarrow>
   agentShares s' rid = agentShares s rid \<Longrightarrow> review_ok s rid \<Longrightarrow> review_ok s' rid"
  unfolding review_ok_def by auto

lemma sum_pledged_upd:
  "x \<notin> set xs \<Longrightarrow> (\<Sum>a\<leftarrow>xs. pledgedAmount ((f(x := v)) a)) = (\<Sum>a\<leftarrow>xs. pledgedAmount (f a))"
  by (induction xs) auto

lemma sum_pledged_if:
  "x \<notin> set xs \<Longrightarrow> (\<Sum>a\<leftarrow>xs. pledgedAmount (if a = x then v else f a)) = (\<Sum>a\<leftarrow>xs. pledgedAmount (f a))"
  by (induction xs) auto

lemma submitThesis_review_ok:
  assumes ok: "review_ok s r" and nz: "sender \<noteq> 0"
    and run: "submitThesis now sender r txt bull pledged dlg s = Inr (s', fx)"
  shows "review_ok s' r"
proof -
  from run have ex: "exists (reviews s r)" and nex: "\<not> executed (reviews s r)"
    and fresh: "agent (theses s r sender) = 0"
    by (auto simp: submitThesis_def Let_def split: if_splits)
  from ok fresh have notin: "sender \<notin> set (reviewAgents s r)"
    unfolding review_ok_def by auto
  with ok have z: "agentShares s r sender = zeroShare"
    unfolding review_ok_def by auto
  show ?thesis
  proof (cases bull)
    case True
    with run have p: "0 < pledged"
      and s': "s' = s\<lparr>agentEscrow := (agentEscrow s)(sender := agentEscrow s sender - pledged),
                     reviews := (reviews s)(r := (reviews s r)
                        \<lparr>totalPledged := totalPledged (reviews s r) + pledged\<rparr>),
                     agentShares := (agentShares s)(r := (agentShares s r)(sender :=
                        \<lparr>pledgedAmount = pledged, tokenShare = 0, claimed = False\<rparr>)),
                     theses := (theses s)(r := (theses s r)(sender :=
                        \<lparr>agent = sender, thesisText = txt, bullish = bull,
                         thesisPledged = pledged, submittedAt = now\<rparr>)),
                     reviewAgents := (reviewAgents s)(r := reviewAgents s r @ [sender])\<rparr>"
      by (auto simp: submitThesis_def Let_def split: if_splits)
    show ?thesis using ok ex nex notin nz p True
      unfolding review_ok_def s' by (auto simp: sum_pledged_upd sum_pledged_if)
  next
    case False
    with run have s': "s' = s\<lparr>theses := (theses s)(r := (theses s r)(sender :=
                   \<lparr>agent = sender, thesisText = txt, bullish = bull,
                    thesisPledged = 0, submittedAt = now\<rparr>)),
                reviewAgents := (reviewAgents s)(r := reviewAgents s r @ [sender])\<rparr>"
      by (auto simp: submitThesis_def Let_def split: if_splits)
    show ?thesis using ok ex nex notin nz False z
      unfolding review_ok_def s' by (auto simp: zeroShare_def)
  qed
qed

lemma after_Inr_iff: "after fx r = Inr (s', fx') \<longleftrightarrow> (\<exists>fx0. r = Inr (s', fx0) \<and> fx' = fx @ fx0)"
  by (cases r) auto


lemma frozen_frame:
  "reviews s' rid = reviews s rid \<Longrightarrow> reviewAgents s' rid = reviewAgents s rid \<Longrightarrow>
   theses s' rid = theses s rid \<Longrightarrow> agentShares s' rid = agentShares s rid \<Longrightarrow> frozen rid s s'"
  by (simp add: frozen_def)

lemma safeI:
  assumes "wfs s \<Longrightarrow> wfs s'" and "wfs s \<Longrightarrow> this s' = this s"
    and "\<And>rid. wfs s \<Longrightarrow> executed (reviews s rid) \<Longrightarrow> frozen rid s s'"
  shows "safe s s'"
  using assms unfolding safe_def by blast

lemma safeD:
  assumes "safe s s'" and "wfs s"
  shows "wfs s'" and "this s' = this s" and "executed (reviews s rid) \<Longrightarrow> frozen rid s s'"
  using assms unfolding safe_def by blast+

lemma submitThesis_frame:
  assumes "submitThesis now sender r txt bull pledged dlg s = Inr (s', fx)"
  shows "nextReviewId s' = nextReviewId s" and "this s' = this s"
    and "rid \<noteq> r \<Longrightarrow> reviews s' rid = reviews s rid"
    and "rid \<noteq> r \<Longrightarrow> reviewAgents s' rid = reviewAgents s rid"
    and "rid \<noteq> r \<Longrightarrow> theses s' rid = theses s rid"
    and "rid \<noteq> r \<Longrightarrow> agentShares s' rid = agentShares s rid"
    and "exists (reviews s r)" and "\<not> executed (reviews s r)"
  using assms by (auto simp: submitThesis_def Let_def split: if_splits)

lemma submitThesis_safe:
  assumes nz: "sender \<noteq> 0" and run: "submitThesis now sender r txt bull pledged dlg s = Inr (s', fx)"
  shows "safe s s'"
proof (rule safeI)
  assume w: "wfs s"
  show "wfs s'" unfolding wfs_def
  proof
    fix rid
    from w have ok: "review_ok s rid" by (simp add: wfs_def)
    show "review_ok s' rid"
    proof (cases "rid = r")
      case True
      with ok nz run show ?thesis by (auto intro: submitThesis_review_ok)
    next
      case False
      with ok submitThesis_frame[OF run] show ?thesis
        by (intro review_ok_cong[of s' rid s]) simp_all
    qed
  qed
next
  show "this s' = this s" by (rule submitThesis_frame[OF run])
next
  fix rid assume "executed (reviews s rid)"
  with submitThesis_frame(8)[OF run] have "rid \<noteq> r" by auto
  with submitThesis_frame[OF run] show "frozen rid s s'"
    by (intro frozen_frame) simp_all
qed

lemma submitToken_frame:
  assumes "submitToken ev now sender v tok s = Inr (s', fx)"
  shows "nextReviewId s' = nextReviewId s + 1" and "this s' = this s"
    and "rid \<noteq> nextReviewId s \<Longrightarrow> reviews s' rid = reviews s rid"
    and "reviewAgents s' = reviewAgents s"
    and "theses s' = theses s"
    and "agentShares s' = agentShares s"
    and "exists (reviews s' (nextReviewId s))" and "\<not> executed (reviews s' (nextReviewId s))"
    and "totalPledged (reviews s' (nextReviewId s)) = 0"
  using assms by (auto simp: submitToken_def Let_def split: if_splits option.splits prod.splits)

lemma submitToken_safe:
  assumes run: "submitToken ev now sender v tok s = Inr (s', fx)"
  shows "safe s s'"
proof (rule safeI)
  assume w: "wfs s"
  note fr = submitToken_frame[OF run]
  show "wfs s'" unfolding wfs_def
  proof
    fix rid
    from w have ok: "review_ok s rid" by (simp add: wfs_def)
    show "review_ok s' rid"
    proof (cases "rid = nextReviewId s")
      case True
      with ok have ne: "\<not> exists (reviews s rid)" unfolding review_ok_def by auto
      with ok have "\<not> executed (reviews s rid)" unfolding review_ok_def by auto
      with ok ne fr True show ?thesis
        unfolding review_ok_def by auto
    next
      case False
      with ok fr show ?thesis
        by (intro review_ok_cong[of s' rid s]) simp_all
    qed
  qed
  show "this s' = this s" by (rule fr)
  fix rid assume e: "executed (reviews s rid)"
  from w e have "rid < nextReviewId s" by (blast dest: wfsD(1,2))
  with fr show "frozen rid s s'"
    by (intro frozen_frame) simp_all
qed

lemma review_ok_shares:
  assumes ok: "review_ok s r" and ex: "executed (reviews s r)"
    and p: "\<And>a. pledgedAmount (g a) = pledgedAmount (agentShares s r a)"
    and z: "\<And>a. a \<notin> set (reviewAgents s r) \<Longrightarrow> g a = agentShares s r a"
  shows "review_ok (s\<lparr>agentShares := (agentShares s)(r := g)\<rparr>) r"
proof -
  have "(\<Sum>a\<leftarrow>reviewAgents s r. pledgedAmount (g a)) =
        (\<Sum>a\<leftarrow>reviewAgents s r. pledgedAmount (agentShares s r a))"
    by (simp add: p)
  with ok ex show ?thesis
    unfolding review_ok_def by (simp add: p z)
qed

lemma wfs_shares:
  assumes w: "wfs s" and ex: "executed (reviews s r)"
    and p: "\<And>a. pledgedAmount (g a) = pledgedAmount (agentShares s r a)"
    and z: "\<And>a. a \<notin> set (reviewAgents s r) \<Longrightarrow> g a = agentShares s r a"
  shows "wfs (s\<lparr>agentShares := (agentShares s)(r := g)\<rparr>)" (is "wfs ?s1")
  unfolding wfs_def
proof
  fix rid
  from w have ok: "review_ok s rid" by (simp add: wfs_def)
  show "review_ok ?s1 rid"
  proof (cases "rid = r")
    case True
    with ok ex p z show ?thesis by (auto intro: review_ok_shares)
  next
    case False
    with ok show ?thesis
      by (intro review_ok_cong[of ?s1 rid s]) simp_all
  qed
qed

lemma claim_mark_safe:
  assumes ex: "executed (reviews s r)" and ts: "0 < tokenShare (agentShares s r sender)"
  shows "safe s (s\<lparr>agentShares := (agentShares s)(r :=
                      (agentShares s r)(sender := (agentShares s r sender)\<lparr>claimed := True\<rparr>))\<rparr>)"
    (is "safe s ?s1")
proof (rule safeI)
  assume w: "wfs s"
  have "sender \<in> set (reviewAgents s r)"
  proof (rule ccontr)
    assume "sender \<notin> set (reviewAgents s r)"
    from wfsD(7)[OF w this] ts show False by (simp add: zeroShare_def)
  qed
  then show "wfs ?s1"
    by (intro wfs_shares[OF w ex]) auto
  show "this ?s1 = this s" by simp
  fix rid show "frozen rid s ?s1" by (simp add: frozen_def)
qed

lemma claimTokens_InrD:
  assumes "claimTokens ev sender r s = Inr (s', fx)"
  shows "exists (reviews s r)" and "executed (reviews s r)"
    and "0 < tokenShare (agentShares s r sender)" and "\<not> claimed (agentShares s r sender)"
    and "transfer ev (tokenAddress (reviews s r)) sender (tokenShare (agentShares s r sender))
           (s\<lparr>agentShares := (agentShares s)(r :=
                (agentShares s r)(sender := (agentShares s r sender)\<lparr>claimed := True\<rparr>))\<rparr>) = Some (True, s')"
    and "fx = [Ext (TransferCall (tokenAddress (reviews s r)) sender (tokenShare (agentShares s r sender))),
               Emit (TokensClaimed r sender (tokenShare (agentShares s' r sender)))]"
  using assms unfolding claimTokens_def Let_def
  by (simp_all split: if_splits option.splits prod.splits)

lemma claimTokens_safe:
  assumes cs: "callees_safe ev" and run: "claimTokens ev sender r s = Inr (s', fx)"
  shows "safe s s'"
proof -
  note d = claimTokens_InrD[OF run]
  from cs d(5) have "safe (s\<lparr>agentShares := (agentShares s)(r :=
                (agentShares s r)(sender := (agentShares s r sender)\<lparr>claimed := True\<rparr>))\<rparr>) s'"
    unfolding callees_safe_def by blast
  with claim_mark_safe[OF d(2) d(3)] show ?thesis by (rule safe_trans)
qed

lemma in_drop_Suc:
  "i < length xs \<Longrightarrow> a \<in> set (drop i xs) \<longleftrightarrow> a = xs ! i \<or> a \<in> set (drop (Suc i) xs)"
  by (simp add: Cons_nth_drop_Suc[symmetric])

lemma allocateShares_props:
  "allocateShares r tp tr i s = Inr (s', fx) \<Longrightarrow>
     s' = s\<lparr>agentShares := agentShares s'\<rparr> \<and>
     (\<forall>rid. rid \<noteq> r \<longrightarrow> agentShares s' rid = agentShares s rid) \<and>
     (\<forall>a. pledgedAmount (agentShares s' r a) = pledgedAmount (agentShares s r a) \<and>
          claimed (agentShares s' r a) = claimed (agentShares s r a) \<and>
          tokenShare (agentShares s' r a) =
            (if a \<in> set (drop i (reviewAgents s r)) \<and> 0 < pledgedAmount (agentShares s r a) \<and> 0 < tr
             then pledgedAmount (agentShares s r a) * tr div tp
             else tokenShare (agentShares s r a)))"
proof (induction r tp tr i s arbitrary: s' fx rule: allocateShares.induct)
  case (1 r tp tr i s)
  note run0 = "1.prems"[unfolded allocateShares.simps[of r tp tr i s]]
  show ?case
  proof (cases "i < length (reviewAgents s r)")
    case False
    with run0 show ?thesis by simp
  next
    case True
    let ?agt = "reviewAgents s r ! i"
    let ?share = "agentShares s r ?agt"
    show ?thesis
    proof (cases "0 < pledgedAmount ?share \<and> 0 < tr")
      case False
      with True run0 have run: "allocateShares r tp tr (i + 1) s = Inr (s', fx)"
        by (simp add: Let_def)
      from "1.IH"(2)[OF True refl refl False run] False True show ?thesis
        by (auto simp: in_drop_Suc)
    next
      case upd: True
      let ?share1 = "?share\<lparr>tokenShare := (pledgedAmount ?share * tr) div tp\<rparr>"
      let ?s1 = "s\<lparr>agentShares := (agentShares s)(r := (agentShares s r)(?agt := ?share1))\<rparr>"
      from True upd run0 have no: "\<not> pledgedAmount ?share * tr > MAX_UINT256" and tp: "tp \<noteq> 0"
        by (auto simp: Let_def split: if_splits)
      with True upd run0 obtain fx0 where run: "allocateShares r tp tr (i + 1) ?s1 = Inr (s', fx0)"
        by (auto simp: Let_def after_Inr_iff)
      note ih = "1.IH"(1)[OF True refl refl upd no tp refl refl run]
      from ih have "s' = ?s1\<lparr>agentShares := agentShares s'\<rparr>" by blast
      then have a: "s' = s\<lparr>agentShares := agentShares s'\<rparr>" by simp
      from ih have b: "\<forall>rid. rid \<noteq> r \<longrightarrow> agentShares s' rid = agentShares s rid"
        by simp
      from ih upd True have c: "\<forall>a. pledgedAmount (agentShares s' r a) = pledgedAmount (agentShares s r a) \<and>
          claimed (agentShares s' r a) = claimed (agentShares s r a) \<and>
          tokenShare (agentShares s' r a) =
            (if a \<in> set (drop i (reviewAgents s r)) \<and> 0 < pledgedAmount (agentShares s r a) \<and> 0 < tr
             then pledgedAmount (agentShares s r a) * tr div tp
             else tokenShare (agentShares s r a))"
        by (auto simp: in_drop_Suc)
      from a b c show ?thesis by blast
    qed
  qed
qed

lemma drop_zip_Cons:
  "i < length xs \<Longrightarrow> i < length ys \<Longrightarrow>
   drop i (zip xs ys) = (xs ! i, ys ! i) # drop (Suc i) (zip xs ys)"
  using Cons_nth_drop_Suc[of i "zip xs ys"] by simp

lemma loopPayouts_nth: "i < n \<Longrightarrow> loopPayouts n p rm ! i = (if i = n - 1 then p + rm else p)"
  by (simp add: loopPayouts_def)

lemma length_loopPayouts: "length (loopPayouts n p rm) = n"
  by (simp add: loopPayouts_def)

lemma executed_stays:
  assumes sf: "safe s s2" and w: "wfs s" and e: "executed (reviews s r)"
  shows "executed (reviews s2 r)" and "exists (reviews s2 r)" and "wfs s2"
    and "reviewAgents s2 r = reviewAgents s r" and "reviews s2 r = reviews s r"
proof -
  from safeD(3)[OF sf w e] show a: "reviews s2 r = reviews s r"
    and "reviewAgents s2 r = reviewAgents s r" by (simp_all add: frozen_def)
  with e wfsD(2)[OF w e] show "executed (reviews s2 r)" and "exists (reviews s2 r)" by simp_all
  show "wfs s2" by (rule safeD(1)[OF sf w])
qed

lemma callees_safeD:
  assumes "callees_safe ev"
  shows "buyJob ev m t a rf g w = Some (w', u) \<Longrightarrow> safe w w'"
    and "callValue ev a p g w = (Some w', u) \<Longrightarrow> safe w w'"
    and "transfer ev t a n w = Some (ok, w') \<Longrightarrow> safe w w'"
  using assms unfolding callees_safe_def by blast+

text \<open>The payment loop of the contract computes the fold of the specification.\<close>

lemma distributeLoop_refines:
  "callees_safe ev \<Longrightarrow> wfs s \<Longrightarrow> executed (reviews s r) \<Longrightarrow> n = length (reviewAgents s r) \<Longrightarrow>
   distributeLoop ev r n p rm i gas s =
     payEach ev r (drop i (zip (reviewAgents s r) (loopPayouts n p rm))) gas s"
proof (induction ev r n p rm i gas s rule: distributeLoop.induct)
  case (1 ev r n p rm i gas s)
  note eq = distributeLoop.simps[of ev r n p rm i gas s]
  show ?case
  proof (cases "i < n")
    case False
    then have "distributeLoop ev r n p rm i gas s = Inr (s, [])"
      by (simp add: eq)
    with False "1.prems" show ?thesis
      by (simp add: length_loopPayouts)
  next
    case True
    with "1.prems" have len: "i < length (reviewAgents s r)" by simp
    let ?agt = "reviewAgents s r ! i"
    let ?payout = "if i = n - 1 then p + rm else p"
    let ?zs = "zip (reviewAgents s r) (loopPayouts n p rm)"
    let ?g = "gas - iterationGas ev - G_callvalue"
    from True len "1.prems" have dz: "drop i ?zs = (?agt, ?payout) # drop (Suc i) ?zs"
      by (simp add: drop_zip_Cons length_loopPayouts loopPayouts_nth)
    show ?thesis
    proof (cases "gas < iterationGas ev")
      case oog0: True
      with True have "distributeLoop ev r n p rm i gas s = Inl OutOfGas"
        by (simp add: eq)
      with dz oog0 show ?thesis by simp
    next
      case it: False
      show ?thesis
      proof (cases "0 < ?payout")
        case False
        from "1.IH"(3)[OF True it _ refl refl False "1.prems"] len
        have ih: "distributeLoop ev r n p rm (i + 1) (gas - iterationGas ev) s =
                    payEach ev r (drop (i + 1) ?zs) (gas - iterationGas ev) s"
          by simp
        from True it len False
        have "distributeLoop ev r n p rm i gas s = distributeLoop ev r n p rm (i + 1) (gas - iterationGas ev) s"
          by (simp add: eq Let_def)
        with ih dz it False show ?thesis by simp
      next
        case pos: True
        show ?thesis
        proof (cases "gas - iterationGas ev < G_callvalue")
          case oog: True
          from True it len pos oog have "distributeLoop ev r n p rm i gas s = Inl OutOfGas"
            by (simp add: eq Let_def)
          with dz it pos oog show ?thesis by simp
        next
          case gasok: False
          obtain res used where cv: "callValue ev ?agt ?payout (forwarded ?g) s = (res, used)"
            by (cases "callValue ev ?agt ?payout (forwarded ?g) s") auto
          show ?thesis
          proof (cases res)
            case None
            from "1.IH"(1)[OF True it _ refl refl pos gasok cv[symmetric] None "1.prems"] len
            have ih: "distributeLoop ev r n p rm (i + 1) (gasAfter ?g used) s =
                  payEach ev r (drop (i + 1) ?zs) (gasAfter ?g used) s"
              by simp
            from True it len pos gasok cv None
            have "distributeLoop ev r n p rm i gas s = after [Ext (ValueCall ?agt ?payout False)]
                    (distributeLoop ev r n p rm (i + 1) (gasAfter ?g used) s)"
              by (simp add: eq Let_def)
            with ih dz it pos gasok cv None show ?thesis by simp
          next
            case (Some s1)
            from cv Some have sf: "safe s s1" by (auto intro: callees_safeD(2)[OF "1.prems"(1)])
            note st = executed_stays[OF sf "1.prems"(2,3)]
            from "1.IH"(2)[OF True it _ refl refl pos gasok cv[symmetric] Some "1.prems"(1) st(3) st(1)]
              len st(4) "1.prems"(4)
            have ih: "distributeLoop ev r n p rm (i + 1) (gasAfter ?g used) s1 =
                  payEach ev r (drop (i + 1) ?zs) (gasAfter ?g used) s1"
              by simp
            from True it len pos gasok cv Some
            have "distributeLoop ev r n p rm i gas s =
                after [Ext (ValueCall ?agt ?payout True), Emit (FeeDistributed r ?agt ?payout)]
                    (distributeLoop ev r n p rm (i + 1) (gasAfter ?g used) s1)"
              by (simp add: eq Let_def)
            with ih dz it pos gasok cv Some show ?thesis by simp
          qed
        qed
      qed
    qed
  qed
qed

lemma attempts_split:
  "length (paid fx) + length (refused fx) = length (attempts fx) \<and>
   sum_list (map snd (paid fx)) + sum_list (map snd (refused fx)) = sum_list (map snd (attempts fx))"
  by (induction fx rule: paid.induct) simp_all

lemma refused_Nil_paid: "refused fx = [] \<Longrightarrow> paid fx = attempts fx"
  by (induction fx rule: paid.induct) simp_all

lemma paid_all_iff: "paid fx = attempts fx \<longleftrightarrow> refused fx = []"
proof
  assume "paid fx = attempts fx"
  then have "length (paid fx) = length (attempts fx)" by simp
  with attempts_split[of fx] show "refused fx = []" by simp
qed (rule refused_Nil_paid)

lemma not_accepts: "callValue ev a q g w = (None, u) \<Longrightarrow> \<not> accepts ev a"
  unfolding accepts_def by (metis fst_conv)

lemma not_rejects: "callValue ev a q g w = (Some w', u) \<Longrightarrow> \<not> rejects ev a"
  unfolding rejects_def by (metis fst_conv option.distinct(1))

lemma payEach_props:
  "callees_safe ev \<Longrightarrow> payEach ev r ps gas s = Inr (s', fx) \<Longrightarrow>
     safe s s' \<and>
     attempts fx = filter (\<lambda>(a, q). 0 < q) ps \<and>
     list_all (isFeeEffect r) fx \<and>
     feeEvents r fx = paid fx \<and>
     ((\<forall>x \<in> set ps. accepts ev (fst x) \<or> rejects ev (fst x)) \<longrightarrow>
        paid fx = filter (\<lambda>(a, q). 0 < q \<and> accepts ev a) ps \<and>
        refused fx = filter (\<lambda>(a, q). 0 < q \<and> rejects ev a) ps)"
proof (induction ps arbitrary: gas s s' fx)
  case Nil
  then show ?case by (simp add: safe_refl)
next
  case (Cons aq rest)
  obtain a q where aq: "aq = (a, q)" by (cases aq)
  note run = Cons.prems(2)[unfolded aq payEach.simps]
  let ?g = "gas - iterationGas ev - G_callvalue"
  from run have it: "\<not> gas < iterationGas ev" by (auto split: if_splits)
  show ?case
  proof (cases "q = 0")
    case True
    with run it have "payEach ev r rest (gas - iterationGas ev) s = Inr (s', fx)" by simp
    from Cons.IH[OF Cons.prems(1) this] True show ?thesis unfolding aq by simp
  next
    case pos: False
    with run it have gasok: "\<not> gas - iterationGas ev < G_callvalue" by (auto split: if_splits)
    obtain res used where cv: "callValue ev a q (forwarded ?g) s = (res, used)"
      by (cases "callValue ev a q (forwarded ?g) s") auto
    show ?thesis
    proof (cases res)
      case None
      with run it pos gasok cv obtain fx0 where
        r: "payEach ev r rest (gasAfter ?g used) s = Inr (s', fx0)"
        and fx: "fx = Ext (ValueCall a q False) # fx0"
        by (auto simp: after_Inr_iff)
      note ih = Cons.IH[OF Cons.prems(1) r]
      from cv None have na: "\<not> accepts ev a" by (auto dest: not_accepts)
      from ih pos na show ?thesis unfolding aq fx by auto
    next
      case (Some s1)
      with run it pos gasok cv obtain fx0 where
        r: "payEach ev r rest (gasAfter ?g used) s1 = Inr (s', fx0)"
        and fx: "fx = Ext (ValueCall a q True) # Emit (FeeDistributed r a q) # fx0"
        by (auto simp: after_Inr_iff)
      note ih = Cons.IH[OF Cons.prems(1) r]
      from cv Some have sf: "safe s s1" by (auto intro: callees_safeD(2)[OF Cons.prems(1)])
      from cv Some have nr: "\<not> rejects ev a" by (auto dest: not_rejects)
      from ih have "safe s1 s'" by simp
      with sf have "safe s s'" by (rule safe_trans)
      with ih pos nr show ?thesis unfolding aq fx by auto
    qed
  qed
qed


text \<open>Enough gas: when no call uses more than \<open>u\<close> gas, \<open>iterationGas + G_callvalue + u\<close>
  per submitter suffices, however many of the calls fail.\<close>

lemma gasAfter_ge: "used \<le> u \<Longrightarrow> avail - u \<le> gasAfter avail used"
proof -
  assume "used \<le> u"
  then have "min used (forwarded avail) \<le> u" by simp
  then show ?thesis unfolding gasAfter_def by (rule diff_le_mono2)
qed

lemma gasAfter_retained: "avail div 64 \<le> gasAfter avail used"
proof -
  have "min used (forwarded avail) \<le> avail - avail div 64" by (simp add: forwarded_def)
  then have "avail - (avail - avail div 64) \<le> gasAfter avail used"
    unfolding gasAfter_def by (rule diff_le_mono2)
  moreover have "avail div 64 \<le> avail" by simp
  ultimately show ?thesis by simp
qed

lemma payEach_enough_gas:
  assumes u: "\<forall>a q g w. snd (callValue ev a q g w) \<le> u"
  shows "length ps * (iterationGas ev + G_callvalue + u) \<le> gas \<Longrightarrow>
         \<exists>s' fx. payEach ev r ps gas s = Inr (s', fx)"
proof (induction ps arbitrary: gas s)
  case Nil
  then show ?case by simp
next
  case (Cons aq rest)
  obtain a q where aq: "aq = (a, q)" by (cases aq)
  let ?c = "iterationGas ev + G_callvalue + u"
  let ?g = "gas - iterationGas ev - G_callvalue"
  from Cons.prems have g0: "iterationGas ev \<le> gas" and g1: "G_callvalue \<le> gas - iterationGas ev"
    and g2: "length rest * ?c \<le> gas - iterationGas ev"
    and g3: "length rest * ?c \<le> ?g - u" by simp_all
  show ?case
  proof (cases "q = 0")
    case True
    from Cons.IH[OF g2, of s] obtain s' fx where
      "payEach ev r rest (gas - iterationGas ev) s = Inr (s', fx)" by blast
    with True g0 show ?thesis unfolding aq by simp
  next
    case pos: False
    obtain res used where cv: "callValue ev a q (forwarded ?g) s = (res, used)"
      by (cases "callValue ev a q (forwarded ?g) s") auto
    from u cv have "used \<le> u" by (metis snd_conv)
    from gasAfter_ge[OF this, of ?g] g3
    have g4: "length rest * ?c \<le> gasAfter ?g used" by simp
    show ?thesis
    proof (cases res)
      case None
      from Cons.IH[OF g4, of s] obtain s' fx where
        "payEach ev r rest (gasAfter ?g used) s = Inr (s', fx)" by blast
      with pos g0 g1 cv None show ?thesis unfolding aq by simp
    next
      case (Some s1)
      from Cons.IH[OF g4, of s1] obtain s' fx where
        "payEach ev r rest (gasAfter ?g used) s1 = Inr (s', fx)" by blast
      with pos g0 g1 cv Some show ?thesis unfolding aq by simp
    qed
  qed
qed

lemma loopPayouts_expected:
  "1 \<le> n \<Longrightarrow> loopPayouts n (fee div n) (fee - fee div n * n) = expectedPayouts fee n"
  by (auto simp: loopPayouts_def expectedPayouts_def list_eq_iff_nth_eq nth_append)

lemma sum_expectedPayouts: "1 \<le> n \<Longrightarrow> sum_list (expectedPayouts fee n) = fee"
proof -
  assume n: "1 \<le> n"
  have le: "fee div n * n \<le> fee" by simp
  have "sum_list (expectedPayouts fee n) = (n - 1) * (fee div n) + (fee div n + (fee - fee div n * n))"
    by (simp add: expectedPayouts_def sum_list_replicate)
  also have "\<dots> = n * (fee div n) + (fee - fee div n * n)"
    using n by (cases n) simp_all
  also have "\<dots> = fee" using le by (simp add: mult.commute)
  finally show ?thesis .
qed

lemma sum_positive_zip:
  "length xs = length ys \<Longrightarrow>
   sum_list (map snd (filter (\<lambda>(a, q). 0 < q) (zip xs ys))) = sum_list (ys :: nat list)"
  by (induction xs ys rule: list_induct2) auto

lemma length_expectedPayouts: "1 \<le> n \<Longrightarrow> length (expectedPayouts fee n) = n"
  by (simp add: expectedPayouts_def)

lemma distributeSubmissionFee_refines:
  assumes cs: "callees_safe ev" and w: "wfs s" and ex: "executed (reviews s r)"
  shows "distributeSubmissionFee ev r gas s =
     payEach ev r (zip (reviewAgents s r)
        (expectedPayouts (submissionFee (reviews s r)) (length (reviewAgents s r)))) gas s"
proof (cases "reviewAgents s r = []")
  case True
  then show ?thesis by (simp add: distributeSubmissionFee_def)
next
  case False
  then have n: "1 \<le> length (reviewAgents s r)" by (cases "reviewAgents s r") simp_all
  from False have "distributeSubmissionFee ev r gas s =
      distributeLoop ev r (length (reviewAgents s r))
        (submissionFee (reviews s r) div length (reviewAgents s r))
        (submissionFee (reviews s r) -
           submissionFee (reviews s r) div length (reviewAgents s r) * length (reviewAgents s r)) 0 gas s"
    by (simp add: distributeSubmissionFee_def Let_def)
  also have "\<dots> = payEach ev r (drop 0 (zip (reviewAgents s r)
        (loopPayouts (length (reviewAgents s r))
           (submissionFee (reviews s r) div length (reviewAgents s r))
           (submissionFee (reviews s r) -
             submissionFee (reviews s r) div length (reviewAgents s r) * length (reviewAgents s r))))) gas s"
    by (rule distributeLoop_refines[OF cs w ex refl])
  finally show ?thesis by (simp add: loopPayouts_expected[OF n])
qed

lemma distributeSubmissionFee_safe:
  assumes cs: "callees_safe ev" and w: "wfs s" and ex: "executed (reviews s r)"
    and run: "distributeSubmissionFee ev r gas s = Inr (s', fx)"
  shows "safe s s'"
  using payEach_props[OF cs run[unfolded distributeSubmissionFee_refines[OF cs w ex]]] by simp

lemma executeReview_InrD:
  assumes "executeReview ev now r gas s = Inr (s', fx)"
  shows "exists (reviews s r)" and "\<not> executed (reviews s r)" and "deadline (reviews s r) \<le> now"
    and "totalPledged (reviews s r) = 0 \<Longrightarrow> distributeSubmissionFee ev r gas (markExecuted r s) = Inr (s', fx)"
    and "totalPledged (reviews s r) \<noteq> 0 \<Longrightarrow>
          \<exists>b0 u0 s2 u1 b1 u2 s4 fx4 fx5.
            balanceOf ev (tokenAddress (reviews s r)) (this s) (forwarded gas) (markExecuted r s) = Some (b0, u0) \<and>
            G_callvalue \<le> gasAfter gas u0 \<and>
            buyJob ev (memeJobAddress s) (tokenAddress (reviews s r)) (totalPledged (reviews s r)) 0
               (forwarded (gasAfter gas u0 - G_callvalue)) (markExecuted r s) = Some (s2, u1) \<and>
            balanceOf ev (tokenAddress (reviews s r)) (this s2)
               (forwarded (gasAfter (gasAfter gas u0 - G_callvalue) u1)) s2 = Some (b1, u2) \<and> b0 \<le> b1 \<and>
            allocateShares r (totalPledged (reviews s r)) (b1 - b0) 0
               (s2\<lparr>reviews := (reviews s2)(r := (reviews s2 r)\<lparr>totalPurchased := b1 - b0\<rparr>)\<rparr>) = Inr (s4, fx4) \<and>
            distributeSubmissionFee ev r
               (gasAfter (gasAfter (gasAfter gas u0 - G_callvalue) u1) u2) s4 = Inr (s', fx5) \<and>
            fx = [Ext (BalanceOfCall (tokenAddress (reviews s r)) (this s)),
                  Ext (BuyJobCall (memeJobAddress s) (tokenAddress (reviews s r)) (totalPledged (reviews s r)) 0),
                  Ext (BalanceOfCall (tokenAddress (reviews s r)) (this s2))] @ fx4 @ fx5 @
                 [Emit (ReviewExecuted r (totalPledged (reviews s r)) (b1 - b0))]"
proof -
  show a: "exists (reviews s r)" and b: "\<not> executed (reviews s r)" and c: "deadline (reviews s r) \<le> now"
    using assms unfolding executeReview_def by (simp_all split: if_splits)
  show "totalPledged (reviews s r) = 0 \<Longrightarrow> distributeSubmissionFee ev r gas (markExecuted r s) = Inr (s', fx)"
    using assms a b c unfolding executeReview_def markExecuted_def by (simp add: Let_def)
  assume nz: "totalPledged (reviews s r) \<noteq> 0"
  show "\<exists>b0 u0 s2 u1 b1 u2 s4 fx4 fx5.
            balanceOf ev (tokenAddress (reviews s r)) (this s) (forwarded gas) (markExecuted r s) = Some (b0, u0) \<and>
            G_callvalue \<le> gasAfter gas u0 \<and>
            buyJob ev (memeJobAddress s) (tokenAddress (reviews s r)) (totalPledged (reviews s r)) 0
               (forwarded (gasAfter gas u0 - G_callvalue)) (markExecuted r s) = Some (s2, u1) \<and>
            balanceOf ev (tokenAddress (reviews s r)) (this s2)
               (forwarded (gasAfter (gasAfter gas u0 - G_callvalue) u1)) s2 = Some (b1, u2) \<and> b0 \<le> b1 \<and>
            allocateShares r (totalPledged (reviews s r)) (b1 - b0) 0
               (s2\<lparr>reviews := (reviews s2)(r := (reviews s2 r)\<lparr>totalPurchased := b1 - b0\<rparr>)\<rparr>) = Inr (s4, fx4) \<and>
            distributeSubmissionFee ev r
               (gasAfter (gasAfter (gasAfter gas u0 - G_callvalue) u1) u2) s4 = Inr (s', fx5) \<and>
            fx = [Ext (BalanceOfCall (tokenAddress (reviews s r)) (this s)),
                  Ext (BuyJobCall (memeJobAddress s) (tokenAddress (reviews s r)) (totalPledged (reviews s r)) 0),
                  Ext (BalanceOfCall (tokenAddress (reviews s r)) (this s2))] @ fx4 @ fx5 @
                 [Emit (ReviewExecuted r (totalPledged (reviews s r)) (b1 - b0))]"
    using assms a b c nz unfolding executeReview_def markExecuted_def
    by (simp add: Let_def after_Inr_iff split: option.splits if_splits sum.splits prod.splits)
qed

lemma markExecuted_simps:
  "reviews (markExecuted r s) rid = (if rid = r then (reviews s r)\<lparr>executed := True\<rparr> else reviews s rid)"
  "reviewAgents (markExecuted r s) = reviewAgents s"
  "theses (markExecuted r s) = theses s"
  "agentShares (markExecuted r s) = agentShares s"
  "nextReviewId (markExecuted r s) = nextReviewId s"
  "this (markExecuted r s) = this s"
  "memeJobAddress (markExecuted r s) = memeJobAddress s"
  by (simp_all add: markExecuted_def)

lemma markExecuted_wfs:
  assumes w: "wfs s" and ex: "exists (reviews s r)"
  shows "wfs (markExecuted r s)"
  unfolding wfs_def
proof
  fix rid
  from w have ok: "review_ok s rid" by (simp add: wfs_def)
  show "review_ok (markExecuted r s) rid"
  proof (cases "rid = r")
    case True
    with ok ex show ?thesis unfolding review_ok_def by (simp add: markExecuted_simps)
  next
    case False
    with ok show ?thesis
      by (intro review_ok_cong[of "markExecuted r s" rid s]) (simp_all add: markExecuted_simps)
  qed
qed

lemma setPurchased_wfs:
  assumes w: "wfs s"
  shows "wfs (s\<lparr>reviews := (reviews s)(r := (reviews s r)\<lparr>totalPurchased := x\<rparr>)\<rparr>)" (is "wfs ?s1")
  unfolding wfs_def
proof
  fix rid
  from w have ok: "review_ok s rid" by (simp add: wfs_def)
  show "review_ok ?s1 rid"
  proof (cases "rid = r")
    case True
    with ok show ?thesis unfolding review_ok_def by simp
  next
    case False
    with ok show ?thesis
      by (intro review_ok_cong[of ?s1 rid s]) simp_all
  qed
qed

lemma allocateShares_wfs:
  assumes w: "wfs s" and ex: "executed (reviews s r)"
    and run: "allocateShares r tp tr i s = Inr (s', fx)"
  shows "wfs s'"
proof -
  note p = allocateShares_props[OF run]
  let ?g = "agentShares s' r"
  from p have "agentShares s' = (agentShares s)(r := ?g)" by (intro ext) simp
  with p have eq: "s' = s\<lparr>agentShares := (agentShares s)(r := ?g)\<rparr>" by simp
  have "wfs (s\<lparr>agentShares := (agentShares s)(r := ?g)\<rparr>)"
  proof (rule wfs_shares[OF w ex])
    fix a show "pledgedAmount (?g a) = pledgedAmount (agentShares s r a)" using p by simp
  next
    fix a assume "a \<notin> set (reviewAgents s r)"
    then have "a \<notin> set (drop i (reviewAgents s r))" by (auto dest: in_set_dropD)
    with p show "?g a = agentShares s r a" by (intro AgentShare.equality) simp_all
  qed
  with eq show ?thesis by simp
qed

lemma allocateShares_frame:
  assumes run: "allocateShares r tp tr i s = Inr (s', fx)"
  shows "reviews s' = reviews s" and "reviewAgents s' = reviewAgents s" and "theses s' = theses s"
    and "this s' = this s" and "nextReviewId s' = nextReviewId s"
    and "rid \<noteq> r \<Longrightarrow> agentShares s' rid = agentShares s rid"
proof -
  note p = allocateShares_props[OF run]
  from p have eq: "s' = s\<lparr>agentShares := agentShares s'\<rparr>" by simp
  show "reviews s' = reviews s" by (subst eq) simp
  show "reviewAgents s' = reviewAgents s" by (subst eq) simp
  show "theses s' = theses s" by (subst eq) simp
  show "this s' = this s" by (subst eq) simp
  show "nextReviewId s' = nextReviewId s" by (subst eq) simp
  show "rid \<noteq> r \<Longrightarrow> agentShares s' rid = agentShares s rid" using p by simp
qed

lemma executeReview_safe:
  assumes cs: "callees_safe ev" and run: "executeReview ev now r gas s = Inr (s', fx)"
  shows "safe s s'"
proof (rule safeI)
  assume w: "wfs s"
  note d = executeReview_InrD[OF run]
  let ?s1 = "markExecuted r s"
  have w1: "wfs ?s1" by (rule markExecuted_wfs[OF w d(1)])
  have e1: "executed (reviews ?s1 r)" by (simp add: markExecuted_simps)
  have goal: "wfs s' \<and> this s' = this s \<and> (\<forall>rid. executed (reviews s rid) \<longrightarrow> frozen rid s s')"
  proof (cases "totalPledged (reviews s r) = 0")
    case True
    from distributeSubmissionFee_safe[OF cs w1 e1 d(4)[OF True]] have sf: "safe ?s1 s'" .
    note sd = safeD[OF sf w1]
    have "frozen rid s s'" if e: "executed (reviews s rid)" for rid
    proof -
      from e d(2) have ne: "rid \<noteq> r" by auto
      then have "frozen rid s ?s1" by (simp add: frozen_def markExecuted_simps)
      moreover from ne e have "executed (reviews ?s1 rid)" by (simp add: markExecuted_simps)
      then have "frozen rid ?s1 s'" by (rule sd(3))
      ultimately show ?thesis by (rule frozen_trans)
    qed
    with sd show ?thesis by (simp add: markExecuted_simps)
  next
    case False
    from d(5)[OF False] obtain b0 u0 s2 u1 b1 u2 s4 fx4 fx5 where
      bj: "buyJob ev (memeJobAddress s) (tokenAddress (reviews s r)) (totalPledged (reviews s r)) 0
               (forwarded (gasAfter gas u0 - G_callvalue)) ?s1 = Some (s2, u1)"
      and al: "allocateShares r (totalPledged (reviews s r)) (b1 - b0) 0
               (s2\<lparr>reviews := (reviews s2)(r := (reviews s2 r)\<lparr>totalPurchased := b1 - b0\<rparr>)\<rparr>) = Inr (s4, fx4)"
      and di: "distributeSubmissionFee ev r
               (gasAfter (gasAfter (gasAfter gas u0 - G_callvalue) u1) u2) s4 = Inr (s', fx5)"
      by blast
    let ?s3 = "s2\<lparr>reviews := (reviews s2)(r := (reviews s2 r)\<lparr>totalPurchased := b1 - b0\<rparr>)\<rparr>"
    from bj have sf12: "safe ?s1 s2" by (rule callees_safeD(1)[OF cs])
    note sd12 = safeD[OF sf12 w1]
    have e2: "executed (reviews s2 r)" using sd12(3)[OF e1] e1 by (simp add: frozen_def)
    have w3: "wfs ?s3" by (rule setPurchased_wfs[OF sd12(1)])
    have e3: "executed (reviews ?s3 r)" using e2 by simp
    have w4: "wfs s4" by (rule allocateShares_wfs[OF w3 e3 al])
    note fr = allocateShares_frame[OF al]
    have e4: "executed (reviews s4 r)" using e3 fr(1) by simp
    from distributeSubmissionFee_safe[OF cs w4 e4 di] have sf45: "safe s4 s'" .
    note sd45 = safeD[OF sf45 w4]
    have "frozen rid s s'" if e: "executed (reviews s rid)" for rid
    proof -
      from e d(2) have ne: "rid \<noteq> r" by auto
      then have f1: "frozen rid s ?s1" by (simp add: frozen_def markExecuted_simps)
      from ne e have "executed (reviews ?s1 rid)" by (simp add: markExecuted_simps)
      then have f2: "frozen rid ?s1 s2" by (rule sd12(3))
      from ne have f3: "frozen rid s2 ?s3" by (simp add: frozen_def)
      from ne fr have f4: "frozen rid ?s3 s4" by (intro frozen_frame) simp_all
      from f1 f2 f3 f4 have f14: "frozen rid s s4" by (blast intro: frozen_trans)
      with e have "executed (reviews s4 rid)" by (simp add: frozen_def)
      then have "frozen rid s4 s'" by (rule sd45(3))
      with f14 show ?thesis by (rule frozen_trans)
    qed
    moreover have "this s' = this s" using sd45(2) fr(4) sd12(2) by (simp add: markExecuted_simps)
    ultimately show ?thesis using sd45(1) by simp
  qed
  from goal show "wfs s'" by simp
  from goal show "this s' = this s" by simp
  fix rid assume "executed (reviews s rid)"
  with goal show "frozen rid s s'" by simp
qed

lemma dispatch_safe:
  assumes nz: "sender \<noteq> 0" and cs: "callees_safe ev"
    and run: "dispatch ev now sender v gas c s = Inr (s', fx)"
  shows "safe s s'"
proof (cases c)
  case (SetMemeJobAddress a)
  with run show ?thesis by (auto split: if_splits intro: setMemeJobAddress_safe)
next
  case (RegisterDelegation a m e sg)
  with run show ?thesis by (auto split: if_splits intro: registerDelegation_safe)
next
  case (DepositForAgent a)
  with run show ?thesis by (auto intro: depositForAgent_safe)
next
  case (RevokeDelegation a)
  with run show ?thesis by (auto split: if_splits intro: revokeDelegation_safe)
next
  case (RegisterAgent u)
  with run show ?thesis by (auto split: if_splits intro: registerAgent_safe)
next
  case (SubmitToken t)
  with run show ?thesis by (auto intro: submitToken_safe)
next
  case (SubmitThesis r th b p d)
  with run nz show ?thesis by (auto split: if_splits intro: submitThesis_safe)
next
  case (ExecuteReview r)
  with run cs show ?thesis by (auto split: if_splits intro: executeReview_safe)
next
  case (UpdateReputation r a p)
  with run show ?thesis by (auto split: if_splits intro: updateReputation_safe)
next
  case (ClaimTokens r)
  with run cs show ?thesis by (auto split: if_splits intro: claimTokens_safe)
qed

lemma external_safe: "external now s s' \<Longrightarrow> safe s s'"
proof (induction rule: external.induct)
  case (ext_refl s)
  show ?case by (rule safe_refl)
next
  case (ext_ledger s s1 ledger)
  from ext_ledger.IH safe_tokens[of s1 ledger] show ?case by (rule safe_trans)
next
  case (ext_call s s1 sender ev msgValue gas c s2 fx)
  from ext_call.IH(2,3,4) have "callees_safe ev" unfolding callees_safe_def by blast
  from dispatch_safe[OF ext_call.hyps(2) this ext_call.hyps(3)] have "safe s1 s2" .
  with ext_call.IH(1) show ?case by (rule safe_trans)
qed

lemma admissible_callees_safe: "admissible now ev \<Longrightarrow> callees_safe ev"
  unfolding admissible_def callees_safe_def
  by (intro conjI allI impI; elim conjE; rule external_safe; blast)

lemma later_safe: "later s s' \<Longrightarrow> safe s s'"
  unfolding later_def
proof (induction rule: rtranclp_induct)
  case base
  show ?case by (rule safe_refl)
next
  case (step y z)
  then show ?case by (blast intro: safe_trans external_safe)
qed

lemma constructor_wfs: "wfs (constructor self sender memeJob minFee window gasLimit ledger)"
  unfolding wfs_def review_ok_def constructor_def
  by (simp add: zeroReview_def zeroThesis_def zeroShare_def)

lemma reachable_wfs: "reachable s \<Longrightarrow> wfs s"
proof (induction rule: reachable.induct)
  case reach_init
  show ?case by (rule constructor_wfs)
next
  case (reach_step s now s')
  from external_safe[OF reach_step.hyps(2)] reach_step.IH show ?case by (simp add: safe_def)
qed

section \<open>Facts about the concrete deployment\<close>

lemma demoOpen_wfs: "wfs demoOpen"
  unfolding wfs_def review_ok_def demoOpen_def
  by (auto simp: zeroReview_def zeroThesis_def zeroShare_def)

lemma demoBearish_wfs: "wfs demoBearish"
  unfolding wfs_def review_ok_def demoBearish_def
  by (auto simp: zeroReview_def zeroThesis_def zeroShare_def)

lemma demoMarked_facts:
  "wfs (markExecuted 0 demoOpen)"
  "executed (reviews (markExecuted 0 demoOpen) 0)"
  "submissionFee (reviews (markExecuted 0 demoOpen) 0) = 100"
  "reviewAgents (markExecuted 0 demoOpen) 0 = [7, 8, 9]"
proof -
  have "exists (reviews demoOpen 0)" by (simp add: demoOpen_def)
  with demoOpen_wfs show "wfs (markExecuted 0 demoOpen)" by (rule markExecuted_wfs)
qed (simp_all add: markExecuted_def demoOpen_def)

lemma expectedPayouts_100_3: "expectedPayouts 100 3 = [33, 33, 34]"
  by (simp add: expectedPayouts_def numeral_2_eq_2)


section \<open>The example environment is admissible\<close>

lemma exampleEnv_admissible: "admissible now (exampleEnv listed kind)"
  unfolding admissible_def exampleEnv_def
  by (auto simp: moveTokens_def Let_def
      split: if_splits recipient.splits intro: ext_ledger[OF ext_refl] ext_refl)

lemma exampleEnv_bounded:
  "\<forall>a. kind a \<noteq> Burning \<Longrightarrow> \<forall>a q g w. snd (callValue (exampleEnv listed kind) a q g w) \<le> 0"
  by (auto simp: exampleEnv_def split: recipient.splits)

section \<open>Fee distribution\<close>

lemma refused_attempts: "set (refused fx) \<subseteq> set (attempts fx)"
  by (induction fx rule: paid.induct) auto

lemma sum_refused_zero:
  assumes "attempts fx = filter (\<lambda>(a, q). 0 < q) ps" and "sum_list (map snd (refused fx)) = 0"
  shows "refused fx = []"
proof (rule ccontr)
  assume "refused fx \<noteq> []"
  then obtain a q where m: "(a, q) \<in> set (refused fx)" by (cases "refused fx") auto
  with refused_attempts[of fx] assms(1) have "0 < q" by auto
  moreover from m assms(2) have "q = 0" by (force simp: sum_list_eq_0_iff)
  ultimately show False by simp
qed

text \<open>
  Claim C4 (corrected).  Fee distribution for a review with \<open>n \<ge> 1\<close> thesis submitters and fee
  \<open>fee\<close> is the fold of the specification over the submitters in submission order with the
  amounts \<open>floor (fee / n)\<close> for every submitter but the last and
  \<open>floor (fee / n) + (fee - floor (fee / n) * n)\<close> for the last; these \<open>n\<close> amounts add up to
  \<open>fee\<close> exactly.  When distribution returns, every positive amount has been offered to its
  submitter, the offers add up to \<open>fee\<close>, and the \<^verbatim>\<open>FeeDistributed\<close> events list exactly the
  payments that went through.  What was paid and what was refused add up to \<open>fee\<close>: the
  payments add up to \<open>fee\<close> exactly when no transfer failed, and otherwise the refused
  amounts stay with the contract.  If every submitter either always accepts or always
  rejects, the payments are the offers to the accepting ones.
\<close>

theorem fee_split_offered_and_paid:
  assumes "wfs s" and "executed (reviews s r)" and "admissible now ev"
    and "fee = submissionFee (reviews s r)" and "n = length (reviewAgents s r)" and "1 \<le> n"
  shows "distributeSubmissionFee ev r gas s =
           payEach ev r (zip (reviewAgents s r) (expectedPayouts fee n)) gas s \<and>
         length (expectedPayouts fee n) = n \<and>
         sum_list (expectedPayouts fee n) = fee \<and>
         (\<forall>s' fx. distributeSubmissionFee ev r gas s = Inr (s', fx) \<longrightarrow>
            attempts fx = filter (\<lambda>(a, q). 0 < q) (zip (reviewAgents s r) (expectedPayouts fee n)) \<and>
            sum_list (map snd (attempts fx)) = fee \<and>
            feeEvents r fx = paid fx \<and>
            sum_list (map snd (paid fx)) + sum_list (map snd (refused fx)) = fee \<and>
            (sum_list (map snd (paid fx)) = fee \<longleftrightarrow> refused fx = []) \<and>
            ((\<forall>a \<in> set (reviewAgents s r). accepts ev a \<or> rejects ev a) \<longrightarrow>
               paid fx = filter (\<lambda>(a, q). 0 < q \<and> accepts ev a)
                           (zip (reviewAgents s r) (expectedPayouts fee n))))"
proof -
  let ?ps = "zip (reviewAgents s r) (expectedPayouts fee n)"
  from assms(3) have cs: "callees_safe ev" by (rule admissible_callees_safe)
  from distributeSubmissionFee_refines[OF cs assms(1,2)] assms(4,5)
  have ref: "distributeSubmissionFee ev r gas s = payEach ev r ?ps gas s" by simp
  from assms(6) have len: "length (expectedPayouts fee n) = n" by (rule length_expectedPayouts)
  from assms(6) have tot: "sum_list (expectedPayouts fee n) = fee" by (rule sum_expectedPayouts)
  from len assms(5) have leq: "length (reviewAgents s r) = length (expectedPayouts fee n)" by simp
  have "attempts fx = filter (\<lambda>(a, q). 0 < q) ?ps \<and>
        sum_list (map snd (attempts fx)) = fee \<and>
        feeEvents r fx = paid fx \<and>
        sum_list (map snd (paid fx)) + sum_list (map snd (refused fx)) = fee \<and>
        (sum_list (map snd (paid fx)) = fee \<longleftrightarrow> refused fx = []) \<and>
        ((\<forall>a \<in> set (reviewAgents s r). accepts ev a \<or> rejects ev a) \<longrightarrow>
           paid fx = filter (\<lambda>(a, q). 0 < q \<and> accepts ev a) ?ps)"
    if run: "distributeSubmissionFee ev r gas s = Inr (s', fx)" for s' fx
  proof -
    from run ref have run': "payEach ev r ?ps gas s = Inr (s', fx)" by simp
    note p = payEach_props[OF cs run']
    from p have at: "attempts fx = filter (\<lambda>(a, q). 0 < q) ?ps" by simp
    from p have fe: "feeEvents r fx = paid fx" by simp
    from at sum_positive_zip[OF leq] tot have sa: "sum_list (map snd (attempts fx)) = fee" by simp
    from attempts_split[of fx] sa
    have sp: "sum_list (map snd (paid fx)) + sum_list (map snd (refused fx)) = fee" by simp
    have iff: "sum_list (map snd (paid fx)) = fee \<longleftrightarrow> refused fx = []"
    proof
      assume "sum_list (map snd (paid fx)) = fee"
      with sp have "sum_list (map snd (refused fx)) = 0" by simp
      with at show "refused fx = []" by (rule sum_refused_zero)
    next
      assume "refused fx = []"
      with sp show "sum_list (map snd (paid fx)) = fee" by simp
    qed
    have acc: "paid fx = filter (\<lambda>(a, q). 0 < q \<and> accepts ev a) ?ps"
      if all: "\<forall>a \<in> set (reviewAgents s r). accepts ev a \<or> rejects ev a"
    proof -
      from all have "\<forall>x \<in> set ?ps. accepts ev (fst x) \<or> rejects ev (fst x)"
        by (auto dest: set_zip_leftD)
      with p show ?thesis by simp
    qed
    from at sa fe sp iff acc show ?thesis by blast
  qed
  with ref len tot show ?thesis by blast
qed

lemma demoRejecting_kinds:
  "\<forall>a \<in> set (reviewAgents (markExecuted 0 demoOpen) 0). accepts demoEnvRejecting a \<or> rejects demoEnvRejecting a"
  by (simp add: demoMarked_facts accepts_def rejects_def demoEnvRejecting_def exampleEnv_def)

theorem fee_split_offered_and_paid_witness:
  "wfs (markExecuted 0 demoOpen) \<and> executed (reviews (markExecuted 0 demoOpen) 0) \<and>
   admissible 700 demoEnvRejecting \<and> (100 :: nat) = submissionFee (reviews (markExecuted 0 demoOpen) 0) \<and>
   (3 :: nat) = length (reviewAgents (markExecuted 0 demoOpen) 0) \<and> (1 :: nat) \<le> 3 \<and>
   expectedPayouts 100 3 = [33, 33, 34] \<and>
   (\<exists>s' fx. distributeSubmissionFee demoEnvRejecting 0 30000000 (markExecuted 0 demoOpen) = Inr (s', fx) \<and>
      attempts fx = [(7, 33), (8, 33), (9, 34)] \<and> paid fx = [(8, 33), (9, 34)] \<and>
      feeEvents 0 fx = [(8, 33), (9, 34)] \<and>
      sum_list (map snd (paid fx)) + sum_list (map snd (refused fx)) = 100)"
proof -
  let ?s = "markExecuted 0 demoOpen"
  have a: "admissible 700 demoEnvRejecting" unfolding demoEnvRejecting_def by (rule exampleEnv_admissible)
  have f: "(100 :: nat) = submissionFee (reviews ?s 0)"
    and n: "(3 :: nat) = length (reviewAgents ?s 0)"
    by (simp_all add: demoMarked_facts)
  have one: "(1 :: nat) \<le> 3" by simp
  note t = fee_split_offered_and_paid[OF demoMarked_facts(1,2) a f n one, of 30000000]
  have "\<forall>a q g w. snd (callValue demoEnvRejecting a q g w) \<le> 0"
    unfolding demoEnvRejecting_def by (rule exampleEnv_bounded) simp
  then have "\<exists>s' fx. payEach demoEnvRejecting 0 (zip (reviewAgents ?s 0) (expectedPayouts 100 3))
                30000000 ?s = Inr (s', fx)"
    by (rule payEach_enough_gas)
       (simp add: demoMarked_facts expectedPayouts_100_3 G_callvalue_def demoEnvRejecting_def exampleEnv_def)
  with t obtain s' fx where run: "distributeSubmissionFee demoEnvRejecting 0 30000000 ?s = Inr (s', fx)"
    by auto
  with t demoRejecting_kinds have
    "attempts fx = filter (\<lambda>(a, q). 0 < q) (zip (reviewAgents ?s 0) (expectedPayouts 100 3))"
    "feeEvents 0 fx = paid fx"
    "sum_list (map snd (paid fx)) + sum_list (map snd (refused fx)) = 100"
    "paid fx = filter (\<lambda>(a, q). 0 < q \<and> accepts demoEnvRejecting a)
                 (zip (reviewAgents ?s 0) (expectedPayouts 100 3))"
    by blast+
  then have "attempts fx = [(7, 33), (8, 33), (9, 34)] \<and> paid fx = [(8, 33), (9, 34)] \<and>
      feeEvents 0 fx = [(8, 33), (9, 34)] \<and>
      sum_list (map snd (paid fx)) + sum_list (map snd (refused fx)) = 100"
    by (simp add: demoMarked_facts expectedPayouts_100_3 accepts_def demoEnvRejecting_def exampleEnv_def)
  with run demoMarked_facts(1,2) a f n one expectedPayouts_100_3 show ?thesis by blast
qed

text \<open>
  The claim as the specification words it, that the payouts always add up to the fee with
  no residue, fails when a recipient rejects its payment.  Review \<open>0\<close> of the example
  deployment has the fee \<open>100\<close> and the submitters \<open>7\<close>, \<open>8\<close> and \<open>9\<close>; when agent \<open>7\<close> rejects
  value transfers, \<^verbatim>\<open>executeReview\<close> returns having paid \<open>33\<close> to agent \<open>8\<close> and \<open>34\<close> to
  agent \<open>9\<close>, \<open>67\<close> in all, and \<open>33\<close> stay with the contract.
\<close>

theorem fee_split_residue_counterexample:
  "wfs demoOpen \<and> admissible 700 demoEnvRejecting \<and>
   submissionFee (reviews demoOpen 0) = 100 \<and> reviewAgents demoOpen 0 = [7, 8, 9] \<and>
   succeeded (executeReview demoEnvRejecting 700 0 30000000 demoOpen) \<and>
   paid (effectsOf (executeReview demoEnvRejecting 700 0 30000000 demoOpen)) = [(8, 33), (9, 34)] \<and>
   refused (effectsOf (executeReview demoEnvRejecting 700 0 30000000 demoOpen)) = [(7, 33)] \<and>
   sum_list (map snd (paid (effectsOf (executeReview demoEnvRejecting 700 0 30000000 demoOpen)))) = 67"
proof -
  have a: "admissible 700 demoEnvRejecting" unfolding demoEnvRejecting_def by (rule exampleEnv_admissible)
  have "submissionFee (reviews demoOpen 0) = 100 \<and> reviewAgents demoOpen 0 = [7, 8, 9] \<and>
   succeeded (executeReview demoEnvRejecting 700 0 30000000 demoOpen) \<and>
   paid (effectsOf (executeReview demoEnvRejecting 700 0 30000000 demoOpen)) = [(8, 33), (9, 34)] \<and>
   refused (effectsOf (executeReview demoEnvRejecting 700 0 30000000 demoOpen)) = [(7, 33)] \<and>
   sum_list (map snd (paid (effectsOf (executeReview demoEnvRejecting 700 0 30000000 demoOpen)))) = 67"
    by (simp add: executeReview_def demoEnvRejecting_def exampleEnv_def demoOpen_def Let_def
        G_callvalue_def forwarded_def gasAfter_def allocateShares.simps distributeSubmissionFee_def
        distributeLoop.simps zeroShare_def MAX_UINT256_def)
  with demoOpen_wfs a show ?thesis by blast
qed




section \<open>Delegation: deposits and revocation\<close>

text \<open>
  Claim C9.  When the delegation record for (principal, agent) passes the existence test of
  \<^verbatim>\<open>revokeDelegation\<close>, the call succeeds, emits nothing, resets exactly that record to
  the zero value and changes nothing else: every other delegation, the escrow balances, the
  reviews, shares, theses, participant lists and identities are the same, and putting the
  old delegation table back gives the old state.
\<close>

theorem revokeDelegation_frame:
  assumes "delegate (delegations s prin agt) = agt"
  shows "\<exists>s'. revokeDelegation prin agt s = Inr (s', []) \<and>
      delegations s' prin agt = zeroDelegation \<and>
      (\<forall>p a. (p, a) \<noteq> (prin, agt) \<longrightarrow> delegations s' p a = delegations s p a) \<and>
      agentEscrow s' = agentEscrow s \<and> reviews s' = reviews s \<and> agentShares s' = agentShares s \<and>
      theses s' = theses s \<and> reviewAgents s' = reviewAgents s \<and>
      agentIdentities s' = agentIdentities s \<and> nextReviewId s' = nextReviewId s \<and>
      s'\<lparr>delegations := delegations s\<rparr> = s"
  using assms by (auto simp: revokeDelegation_def)

theorem revokeDelegation_frame_witness:
  "delegate (delegations demoOpen 5 7) = 7 \<and>
   (\<exists>s'. revokeDelegation 5 7 demoOpen = Inr (s', []) \<and>
      delegations s' 5 7 = zeroDelegation \<and>
      delegations s' 5 8 = delegations demoOpen 5 8 \<and>
      agentEscrow s' 7 = 600000000000000000 \<and>
      totalPledged (reviews s' 0) = 1000000000000000000 \<and>
      pledgedAmount (agentShares s' 0 7) = 400000000000000000)"
proof -
  have h: "delegate (delegations demoOpen 5 7) = 7" by (simp add: demoOpen_def)
  from revokeDelegation_frame[OF h] obtain s' where
    r: "revokeDelegation 5 7 demoOpen = Inr (s', [])" "delegations s' 5 7 = zeroDelegation"
       "\<forall>p a. (p, a) \<noteq> (5, 7) \<longrightarrow> delegations s' p a = delegations demoOpen p a"
       "agentEscrow s' = agentEscrow demoOpen" "reviews s' = reviews demoOpen"
       "agentShares s' = agentShares demoOpen" by blast
  from r(3) have "delegations s' 5 8 = delegations demoOpen 5 8" by simp
  with h r show ?thesis by (simp add: demoOpen_def)
qed

text \<open>For an agent address other than zero the existence test is exact: with no record
  for (principal, agent), both the deposit and the revocation are rejected.\<close>

lemma no_grant_rejected:
  assumes "agt \<noteq> 0" and "delegations s prin agt = zeroDelegation"
  shows "depositForAgent now prin v agt s = Inl NoDelegationFound"
    and "revokeDelegation prin agt s = Inl NoDelegationFound"
  using assms by (simp_all add: depositForAgent_def revokeDelegation_def zeroDelegation_def)

text \<open>
  Claim C3.  The test \<^verbatim>\<open>d.delegate == agentAddress\<close> compares against the zero value of a
  missing record, so it passes for the zero agent address although \<^verbatim>\<open>registerDelegation\<close>
  never stores a record for it.  On the freshly deployed contract, where principal \<open>5\<close> has
  no delegation at all, \<^verbatim>\<open>depositForAgent(address(0))\<close> with one unit of value succeeds and
  credits the escrow of address zero, and \<^verbatim>\<open>revokeDelegation(address(0))\<close> succeeds too.
\<close>

theorem deposit_and_revoke_zero_agent:
  "delegations demoFresh 5 0 = zeroDelegation \<and>
   depositForAgent 0 5 1 0 demoFresh = Inr (demoFresh\<lparr>agentEscrow := (agentEscrow demoFresh)(0 := 1)\<rparr>, []) \<and>
   revokeDelegation 5 0 demoFresh = Inr (demoFresh, [])"
  by (simp add: demoFresh_def constructor_def depositForAgent_def revokeDelegation_def
      zeroDelegation_def MAX_UINT256_def fun_upd_idem)

section \<open>Execution happens at most once\<close>

lemma later_refl: "later s s"
  by (simp add: later_def)

lemma later_external: "later s s1 \<Longrightarrow> external now s1 s2 \<Longrightarrow> later s s2"
  unfolding later_def by (rule rtranclp.rtrancl_into_rtrancl) blast+

lemma executeReview_already:
  "exists (reviews s r) \<Longrightarrow> executed (reviews s r) \<Longrightarrow> executeReview ev now r gas s = Inl AlreadyExecuted"
  by (simp add: executeReview_def)

lemma later_executed:
  assumes "wfs w" and "executed (reviews w r)" and "later w w'"
  shows "executed (reviews w' r)" and "executeReview ev now r gas w' = Inl AlreadyExecuted"
proof -
  note st = executed_stays[OF later_safe[OF assms(3)] assms(1,2)]
  show "executed (reviews w' r)" by (rule st(1))
  show "executeReview ev now r gas w' = Inl AlreadyExecuted"
    by (rule executeReview_already[OF st(2) st(1)])
qed

lemma agree_onD:
  assumes "agree_on P ev ev'"
  shows "iterationGas ev' = iterationGas ev"
    and "P w \<Longrightarrow> balanceOf ev' t a g w = balanceOf ev t a g w"
    and "P w \<Longrightarrow> buyJob ev' m t a rf g w = buyJob ev m t a rf g w"
    and "P w \<Longrightarrow> callValue ev' a p g w = callValue ev a p g w"
    and "P w \<Longrightarrow> transfer ev' t a n w = transfer ev t a n w"
  using assms unfolding agree_on_def by simp_all

lemma distributeLoop_agree:
  "callees_safe ev \<Longrightarrow> wfs s \<Longrightarrow> executed (reviews s r) \<Longrightarrow>
   agree_on (\<lambda>w. wfs w \<and> executed (reviews w r)) ev ev' \<Longrightarrow>
   distributeLoop ev' r n p rm i gas s = distributeLoop ev r n p rm i gas s"
proof (induction ev r n p rm i gas s rule: distributeLoop.induct)
  case (1 ev r n p rm i gas s)
  note e1 = distributeLoop.simps[of ev r n p rm i gas s]
  note e2 = distributeLoop.simps[of ev' r n p rm i gas s]
  let ?agt = "reviewAgents s r ! i"
  let ?payout = "if i = n - 1 then p + rm else p"
  let ?g = "gas - iterationGas ev - G_callvalue"
  note ig = agree_onD(1)[OF "1.prems"(4)]
  have here: "wfs s \<and> executed (reviews s r)" using "1.prems"(2,3) by simp
  have cv': "callValue ev' a q g s = callValue ev a q g s" for a q g
    by (rule agree_onD(4)[OF "1.prems"(4)]) (rule here)
  show ?case
  proof (cases "i < n \<and> \<not> gas < iterationGas ev \<and> i < length (reviewAgents s r)")
    case False
    then show ?thesis by (subst e1, subst e2) (auto simp: ig)
  next
    case True
    then have lt: "i < n" and it: "\<not> gas < iterationGas ev"
      and len: "\<not> \<not> i < length (reviewAgents s r)" by simp_all
    show ?thesis
    proof (cases "0 < ?payout")
      case False
      from "1.IH"(3)[OF lt it len refl refl False "1.prems"] True False show ?thesis
        by (subst e1, subst e2) (simp add: Let_def ig)
    next
      case pos: True
      show ?thesis
      proof (cases "gas - iterationGas ev < G_callvalue")
        case oog: True
        with True pos show ?thesis by (subst e1, subst e2) (simp add: Let_def ig)
      next
        case gasok: False
        obtain res used where cv: "callValue ev ?agt ?payout (forwarded ?g) s = (res, used)"
          by (cases "callValue ev ?agt ?payout (forwarded ?g) s") auto
        show ?thesis
        proof (cases res)
          case None
          from "1.IH"(1)[OF lt it len refl refl pos gasok cv[symmetric] None "1.prems"]
            True pos gasok cv None cv' show ?thesis
            by (subst e1, subst e2) (simp add: Let_def ig)
        next
          case (Some s1)
          from cv Some have sf: "safe s s1" by (auto intro: callees_safeD(2)[OF "1.prems"(1)])
          note st = executed_stays[OF sf "1.prems"(2,3)]
          from "1.IH"(2)[OF lt it len refl refl pos gasok cv[symmetric] Some "1.prems"(1) st(3) st(1) "1.prems"(4)]
            True pos gasok cv Some cv' show ?thesis
            by (subst e1, subst e2) (simp add: Let_def ig)
        qed
      qed
    qed
  qed
qed

lemma distributeSubmissionFee_agree:
  "callees_safe ev \<Longrightarrow> wfs s \<Longrightarrow> executed (reviews s r) \<Longrightarrow>
   agree_on (\<lambda>w. wfs w \<and> executed (reviews w r)) ev ev' \<Longrightarrow>
   distributeSubmissionFee ev' r gas s = distributeSubmissionFee ev r gas s"
  by (simp add: distributeSubmissionFee_def Let_def distributeLoop_agree)

lemma executeReview_agree:
  assumes cs: "callees_safe ev" and w: "wfs s"
    and ag: "agree_on (\<lambda>w. wfs w \<and> executed (reviews w r)) ev ev'"
  shows "executeReview ev' now r gas s = executeReview ev now r gas s"
proof (cases "exists (reviews s r)")
  case False
  then show ?thesis by (simp add: executeReview_def)
next
  case ex: True
  let ?s1 = "s\<lparr>reviews := (reviews s)(r := (reviews s r)\<lparr>executed := True\<rparr>)\<rparr>"
  have s1: "?s1 = markExecuted r s" by (simp add: markExecuted_def)
  have w1: "wfs ?s1" unfolding s1 by (rule markExecuted_wfs[OF w ex])
  have x1: "executed (reviews ?s1 r)" by simp
  from w1 x1 have p1: "wfs ?s1 \<and> executed (reviews ?s1 r)" by simp
  have A: "balanceOf ev' t a g ?s1 = balanceOf ev t a g ?s1" for t a g
    by (rule agree_onD(2)[OF ag]) (rule p1)
  have B: "buyJob ev' m t a rf g ?s1 = buyJob ev m t a rf g ?s1" for m t a rf g
    by (rule agree_onD(3)[OF ag]) (rule p1)
  have E: "distributeSubmissionFee ev' r g ?s1 = distributeSubmissionFee ev r g ?s1" for g
    by (rule distributeSubmissionFee_agree[OF cs w1 x1 ag])
  have C: "balanceOf ev' t a g s2 = balanceOf ev t a g s2"
    and D: "allocateShares r tp tr 0 (s2\<lparr>reviews := (reviews s2)(r := (reviews s2 r)\<lparr>totalPurchased := tr\<rparr>)\<rparr>) = Inr (s4, fx4)
        \<Longrightarrow> distributeSubmissionFee ev' r g' s4 = distributeSubmissionFee ev r g' s4"
    if bj: "buyJob ev m tk am rf g0 ?s1 = Some (s2, u)" for m tk am rf g0 s2 u t a g tp tr s4 fx4 g'
  proof -
    from bj have sf: "safe ?s1 s2" by (rule callees_safeD(1)[OF cs])
    note st = executed_stays[OF sf w1 x1]
    from st have p2: "wfs s2 \<and> executed (reviews s2 r)" by simp
    show "balanceOf ev' t a g s2 = balanceOf ev t a g s2"
      by (rule agree_onD(2)[OF ag]) (rule p2)
    assume al: "allocateShares r tp tr 0 (s2\<lparr>reviews := (reviews s2)(r := (reviews s2 r)\<lparr>totalPurchased := tr\<rparr>)\<rparr>) = Inr (s4, fx4)"
    let ?s3 = "s2\<lparr>reviews := (reviews s2)(r := (reviews s2 r)\<lparr>totalPurchased := tr\<rparr>)\<rparr>"
    have w3: "wfs ?s3" by (rule setPurchased_wfs[OF st(3)])
    have x3: "executed (reviews ?s3 r)" using st(1) by simp
    have w4: "wfs s4" by (rule allocateShares_wfs[OF w3 x3 al])
    have x4: "executed (reviews s4 r)" using x3 allocateShares_frame(1)[OF al] by simp
    show "distributeSubmissionFee ev' r g' s4 = distributeSubmissionFee ev r g' s4"
      by (rule distributeSubmissionFee_agree[OF cs w4 x4 ag])
  qed
  show ?thesis
    unfolding executeReview_def
    by (simp add: Let_def A B E C D split: option.splits sum.splits prod.splits cong: if_cong)
qed

text \<open>
  Claim C1.  \<^verbatim>\<open>executeReview\<close> succeeds at most once per review.  After a successful
  execution the flag is set, and in every state that any number of later transactions can
  lead to, a further \<^verbatim>\<open>executeReview\<close> for the same id fails with \<^verbatim>\<open>AlreadyExecuted\<close>,
  whatever the environment, the time and the gas.  The flag, once set, is never reset by
  any operation.  The flag is set before any external interaction: the outcome of
  \<^verbatim>\<open>executeReview\<close> depends on the callees only through what they do in states that
  satisfy the invariant and have the flag set, so no callee ever runs before the write;
  and from such a state, whatever external code does, re-entrant calls included, a call
  of \<^verbatim>\<open>executeReview\<close> for the same id fails with \<^verbatim>\<open>AlreadyExecuted\<close>.
\<close>

theorem executeReview_at_most_once:
  assumes "wfs s" and "admissible now ev"
  shows "(\<forall>s' fx. executeReview ev now r gas s = Inr (s', fx) \<longrightarrow>
            executed (reviews s' r) \<and>
            (\<forall>s'' ev' now' gas'. later s' s'' \<longrightarrow>
               executeReview ev' now' r gas' s'' = Inl AlreadyExecuted)) \<and>
         (\<forall>s''. executed (reviews s r) \<and> later s s'' \<longrightarrow> executed (reviews s'' r)) \<and>
         (\<forall>ev'. agree_on (\<lambda>w. wfs w \<and> executed (reviews w r)) ev ev' \<longrightarrow>
            executeReview ev' now r gas s = executeReview ev now r gas s) \<and>
         (\<forall>w w' ev' now' gas'. wfs w \<and> executed (reviews w r) \<and> later w w' \<longrightarrow>
            executeReview ev' now' r gas' w' = Inl AlreadyExecuted)"
proof -
  from assms(2) have cs: "callees_safe ev" by (rule admissible_callees_safe)
  have once: "executed (reviews s' r) \<and>
        (\<forall>s'' ev' now' gas'. later s' s'' \<longrightarrow> executeReview ev' now' r gas' s'' = Inl AlreadyExecuted)"
    if run: "executeReview ev now r gas s = Inr (s', fx)" for s' fx
  proof -
    note d = executeReview_InrD(1)[OF run]
    have w1: "wfs (markExecuted r s)" by (rule markExecuted_wfs[OF assms(1) d])
    from executeReview_safe[OF cs run] assms(1) have w': "wfs s'" by (simp add: safe_def)
    have x': "executed (reviews s' r)"
    proof (cases "totalPledged (reviews s r) = 0")
      case True
      from executeReview_InrD(4)[OF run True]
      have "safe (markExecuted r s) s'"
        by (rule distributeSubmissionFee_safe[OF cs w1, rotated]) (simp add: markExecuted_simps)
      from executed_stays(1)[OF this w1, of r] show ?thesis by (simp add: markExecuted_simps)
    next
      case False
      from executeReview_InrD(5)[OF run False] obtain b0 u0 s2 u1 b1 u2 s4 fx4 fx5 where
        bj: "buyJob ev (memeJobAddress s) (tokenAddress (reviews s r)) (totalPledged (reviews s r)) 0
               (forwarded (gasAfter gas u0 - G_callvalue)) (markExecuted r s) = Some (s2, u1)"
        and al: "allocateShares r (totalPledged (reviews s r)) (b1 - b0) 0
               (s2\<lparr>reviews := (reviews s2)(r := (reviews s2 r)\<lparr>totalPurchased := b1 - b0\<rparr>)\<rparr>) = Inr (s4, fx4)"
        and df: "distributeSubmissionFee ev r
               (gasAfter (gasAfter (gasAfter gas u0 - G_callvalue) u1) u2) s4 = Inr (s', fx5)"
        by blast
      have x1: "executed (reviews (markExecuted r s) r)" by (simp add: markExecuted_simps)
      note st = executed_stays[OF callees_safeD(1)[OF cs bj] w1 x1]
      let ?s3 = "s2\<lparr>reviews := (reviews s2)(r := (reviews s2 r)\<lparr>totalPurchased := b1 - b0\<rparr>)\<rparr>"
      have w3: "wfs ?s3" by (rule setPurchased_wfs[OF st(3)])
      have x3: "executed (reviews ?s3 r)" using st(1) by simp
      have w4: "wfs s4" by (rule allocateShares_wfs[OF w3 x3 al])
      have x4: "executed (reviews s4 r)" using x3 allocateShares_frame(1)[OF al] by simp
      from executed_stays(1)[OF distributeSubmissionFee_safe[OF cs w4 x4 df] w4 x4] show ?thesis .
    qed
    from later_executed(2)[OF w' x'] x' show ?thesis by blast
  qed
  have keep: "executed (reviews s'' r)" if "executed (reviews s r) \<and> later s s''" for s''
    using later_executed(1)[OF assms(1)] that by blast
  have ag: "executeReview ev' now r gas s = executeReview ev now r gas s"
    if "agree_on (\<lambda>w. wfs w \<and> executed (reviews w r)) ev ev'" for ev'
    by (rule executeReview_agree[OF cs assms(1) that])
  have re: "executeReview ev' now' r gas' w' = Inl AlreadyExecuted"
    if "wfs w \<and> executed (reviews w r) \<and> later w w'" for w w' ev' now' gas'
    using later_executed(2) that by blast
  from once keep ag re show ?thesis by blast
qed

lemma demoRun:
  "succeeded (executeReview demoEnv 700 0 30000000 demoOpen)"
  "paid (effectsOf (executeReview demoEnv 700 0 30000000 demoOpen)) = [(7, 33), (8, 33), (9, 34)]"
  "tokenShare (agentShares (stateAfter demoOpen (executeReview demoEnv 700 0 30000000 demoOpen)) 0 7) = 400"
  "tokenShare (agentShares (stateAfter demoOpen (executeReview demoEnv 700 0 30000000 demoOpen)) 0 8) = 600"
  "tokenShare (agentShares (stateAfter demoOpen (executeReview demoEnv 700 0 30000000 demoOpen)) 0 9) = 0"
  "totalPurchased (reviews (stateAfter demoOpen (executeReview demoEnv 700 0 30000000 demoOpen)) 0) = 1000"
  by (simp_all add: executeReview_def demoEnv_def exampleEnv_def demoOpen_def Let_def
        G_callvalue_def forwarded_def gasAfter_def allocateShares.simps distributeSubmissionFee_def
        distributeLoop.simps zeroShare_def MAX_UINT256_def)

theorem executeReview_at_most_once_witness:
  "wfs demoOpen \<and> admissible 700 demoEnv \<and>
   succeeded (executeReview demoEnv 700 0 30000000 demoOpen) \<and>
   executed (reviews (stateAfter demoOpen (executeReview demoEnv 700 0 30000000 demoOpen)) 0) \<and>
   executeReview demoEnvRejecting 800 0 30000000
     (stateAfter demoOpen (executeReview demoEnv 700 0 30000000 demoOpen)) = Inl AlreadyExecuted"
proof -
  have a: "admissible 700 demoEnv" unfolding demoEnv_def by (rule exampleEnv_admissible)
  note t = executeReview_at_most_once[OF demoOpen_wfs a, of 0 30000000]
  from demoRun(1) obtain s' fx where run: "executeReview demoEnv 700 0 30000000 demoOpen = Inr (s', fx)"
    by (cases "executeReview demoEnv 700 0 30000000 demoOpen") auto
  with t later_refl[of s'] have "executed (reviews s' 0)"
    and "executeReview demoEnvRejecting 800 0 30000000 s' = Inl AlreadyExecuted" by blast+
  with run demoOpen_wfs a show ?thesis by simp
qed

end
